theory Spec2Isabelle
  imports Complex_Main
begin

section \<open>Review analyzer: the data path of \<^verbatim>\<open>main.py\<close>\<close>

text \<open>
  The script keeps its reviews in a pandas \<^verbatim>\<open>DataFrame\<close>. The embedding follows
  the script line by line and writes out the library calls it makes
  (\<^verbatim>\<open>pd.DataFrame\<close>, \<^verbatim>\<open>pd.to_numeric\<close>, \<^verbatim>\<open>random.randint\<close>,
  \<^verbatim>\<open>value_counts\<close>, \<^verbatim>\<open>resample\<close>, \<^verbatim>\<open>dropna\<close>) as HOL functions.

  Conventions of the model:
  \<^item> a number is an exact rational; the not-a-number float is the separate value \<open>NaN\<close>;
    where the script computes in float64 (the mean of the ratings) the result is
    rounded to the nearest float64 by \<open>float64\<close>; infinities are not represented;
  \<^item> a \<^verbatim>\<open>datetime\<close> is an integer count of microseconds on the proleptic Gregorian
    time line, a \<^verbatim>\<open>timedelta\<close> an integer number of microseconds;
  \<^item> a raised exception is the left injection of a sum.
\<close>

subsection \<open>Values, records, errors\<close>

text \<open>
  The values a scraped record can hold (decoded JSON): \<^verbatim>\<open>None\<close>, float nan, a boolean,
  a number, a string, or a nested list or dict (kept opaque by its text). \<open>PDatetime\<close>
  is a timestamp cell of a datetime column.
\<close>

datatype pyval =
    PNone
  | PNaN
  | PBool bool
  | PNum rat
  | PStr string
  | PObj string
  | PDatetime int

text \<open>A raw review record is a Python dict: field name to value, keys distinct.\<close>

type_synonym raw_review = "(string \<times> pyval) list"

datatype error =
    KeyError string
  | IndexError
  | ValueErrorAt nat
  | TypeErrorAt nat
  | TypeError

text \<open>A float64 cell: a number or nan.\<close>

datatype number = NaN | Num rat

text \<open>A column carries its dtype: object, float64 or datetime64.\<close>

datatype column =
    ObjCol "pyval list"
  | NumCol "number list"
  | DateCol "int list"

record dataframe =
  index_len :: nat
  cols :: "(string \<times> column) list"

fun col_len :: "column \<Rightarrow> nat" where
  "col_len (ObjCol vs) = length vs"
| "col_len (NumCol xs) = length xs"
| "col_len (DateCol ts) = length ts"

fun number_cell :: "number \<Rightarrow> pyval" where
  "number_cell NaN = PNaN"
| "number_cell (Num x) = PNum x"

text \<open>The cells of a column as Python values, whatever its dtype.\<close>

fun cells :: "column \<Rightarrow> pyval list" where
  "cells (ObjCol vs) = vs"
| "cells (NumCol xs) = map number_cell xs"
| "cells (DateCol ts) = map PDatetime ts"

definition column_names :: "dataframe \<Rightarrow> string list" where
  "column_names df = map fst (cols df)"

text \<open>Every column is as long as the index.\<close>

definition wf_frame :: "dataframe \<Rightarrow> bool" where
  "wf_frame df = list_all (\<lambda>c. col_len (snd c) = index_len df) (cols df)"

subsection \<open>\<^verbatim>\<open>pd.DataFrame(reviews_data)\<close>\<close>

text \<open>
  The column labels of a list of dicts are the keys in order of first appearance
  (\<^verbatim>\<open>fast_unique_multiple_list_gen\<close> with \<^verbatim>\<open>sort=False\<close>).
\<close>

fun fast_unique :: "'a list \<Rightarrow> 'a list \<Rightarrow> 'a list" where
  "fast_unique seen [] = []"
| "fast_unique seen (k # ks) =
     (if k \<in> set seen then fast_unique seen ks else k # fast_unique (k # seen) ks)"

text \<open>A record without the key gets nan in that column.\<close>

definition field :: "string \<Rightarrow> raw_review \<Rightarrow> pyval" where
  "field k r = (case map_of r k of None \<Rightarrow> PNaN | Some v \<Rightarrow> v)"

definition pd_DataFrame :: "raw_review list \<Rightarrow> dataframe" where
  "pd_DataFrame reviews_data =
     \<lparr> index_len = length reviews_data,
       cols = map (\<lambda>k. (k, ObjCol (map (field k) reviews_data)))
                (fast_unique [] (concat (map (map fst) reviews_data))) \<rparr>"

text \<open>\<^verbatim>\<open>df[name]\<close> raises \<^verbatim>\<open>KeyError\<close> for a label that is not a column.\<close>

definition getitem :: "dataframe \<Rightarrow> string \<Rightarrow> error + column" where
  "getitem df name =
     (case map_of (cols df) name of None \<Rightarrow> Inl (KeyError name) | Some c \<Rightarrow> Inr c)"

text \<open>
  \<^verbatim>\<open>df[name] = c\<close> replaces the column in place when the label exists and appends
  it otherwise. The script only assigns columns as long as the index.
\<close>

definition setitem :: "dataframe \<Rightarrow> string \<Rightarrow> column \<Rightarrow> dataframe" where
  "setitem df name c =
     (if name \<in> set (column_names df)
      then df\<lparr>cols := map (\<lambda>(n, old). if n = name then (n, c) else (n, old)) (cols df)\<rparr>
      else df\<lparr>cols := cols df @ [(name, c)]\<rparr>)"

subsection \<open>\<^verbatim>\<open>pd.to_numeric\<close>\<close>

text \<open>
  The conversion of one object cell (\<^verbatim>\<open>maybe_convert_numeric\<close>, errors raised):
  null becomes nan, a boolean 1 or 0, a string is parsed, anything else is an invalid
  object. The grammar of numeric strings is the library's; it is the parameter
  \<open>parse\<close>, which answers \<open>None\<close> for a string that is no number. The position of
  the offending cell goes into the exception, as pandas appends it to the message
  (\<^verbatim>\<open>Unable to parse string "N/A" at position i\<close>).
\<close>

type_synonym parser = "string \<Rightarrow> number option"

fun coerce :: "parser \<Rightarrow> nat \<Rightarrow> pyval \<Rightarrow> error + number" where
  "coerce parse i PNone = Inr NaN"
| "coerce parse i PNaN = Inr NaN"
| "coerce parse i (PBool b) = Inr (Num (if b then 1 else 0))"
| "coerce parse i (PNum x) = Inr (Num x)"
| "coerce parse i (PStr s) =
     (case parse s of None \<Rightarrow> Inl (ValueErrorAt i) | Some x \<Rightarrow> Inr x)"
| "coerce parse i (PObj s) = Inl (TypeErrorAt i)"
| "coerce parse i (PDatetime t) = Inl (TypeErrorAt i)"

definition coercible :: "parser \<Rightarrow> pyval \<Rightarrow> bool" where
  "coercible parse v = (case coerce parse 0 v of Inl e \<Rightarrow> False | Inr x \<Rightarrow> True)"

text \<open>The loop over the cells, from position \<open>i\<close>: the first failure raises.\<close>

fun to_numeric_from :: "parser \<Rightarrow> nat \<Rightarrow> pyval list \<Rightarrow> error + number list" where
  "to_numeric_from parse i [] = Inr []"
| "to_numeric_from parse i (v # vs) =
     (case coerce parse i v of
        Inl e \<Rightarrow> Inl e
      | Inr x \<Rightarrow>
          (case to_numeric_from parse (Suc i) vs of
             Inl e \<Rightarrow> Inl e
           | Inr xs \<Rightarrow> Inr (x # xs)))"

text \<open>
  A numeric column is returned as it is; a datetime column becomes its epoch
  nanoseconds.
\<close>

fun to_numeric :: "parser \<Rightarrow> column \<Rightarrow> error + column" where
  "to_numeric parse (ObjCol vs) =
     (case to_numeric_from parse 0 vs of Inl e \<Rightarrow> Inl e | Inr xs \<Rightarrow> Inr (NumCol xs))"
| "to_numeric parse (NumCol xs) = Inr (NumCol xs)"
| "to_numeric parse (DateCol ts) = Inr (NumCol (map (\<lambda>t. Num (of_int (1000 * t))) ts))"

subsection \<open>Clock and random source\<close>

text \<open>
  \<^verbatim>\<open>random.randint(a, b)\<close> with \<open>a \<le> b\<close> (the script only calls
  \<^verbatim>\<open>randint(0, 730)\<close>) returns an integer of \<open>[a, b]\<close> and advances the generator.
  The state of the generator is the stream of the numbers it will deliver; \<open>randint\<close>
  takes the next one and reduces it modulo the width \<open>b - a + 1\<close> of the range. (The
  library delivers a number below the width already, by rejecting the raw bits that are
  not; the reduction keeps the function total on every stream.)
\<close>

type_synonym rng = "nat \<Rightarrow> nat"

definition randint :: "int \<Rightarrow> int \<Rightarrow> rng \<Rightarrow> int \<times> rng" where
  "randint a b g = (a + int (g 0 mod nat (b - a + 1)), \<lambda>n. g (Suc n))"

definition timedelta_days :: "int \<Rightarrow> int" where
  "timedelta_days d = d * 86400000000"

text \<open>
  The list comprehension of line 54: one \<open>randint(0, 730)\<close> per row, in row order.
\<close>

fun random_dates :: "int \<Rightarrow> nat \<Rightarrow> rng \<Rightarrow> int list \<times> rng" where
  "random_dates start_date 0 g = ([], g)"
| "random_dates start_date (Suc n) g =
     (case randint 0 730 g of
        (d, g1) \<Rightarrow>
          (case random_dates start_date n g1 of
             (ds, g2) \<Rightarrow> ((start_date + timedelta_days d) # ds, g2)))"

text \<open>\<^verbatim>\<open>pd.to_datetime\<close> of a column that already holds timestamps changes nothing.\<close>

definition to_datetime :: "int list \<Rightarrow> int list" where
  "to_datetime ts = ts"

subsection \<open>\<^verbatim>\<open>process_reviews_data\<close>\<close>

text \<open>
  Lines 47 to 57. \<open>now\<close> is the value of \<^verbatim>\<open>datetime.now()\<close> at the call, \<open>g\<close> the
  state of the random generator; the new generator state is returned with the table.
\<close>

definition process_reviews_data ::
  "parser \<Rightarrow> int \<Rightarrow> rng \<Rightarrow> raw_review list \<Rightarrow> error + (dataframe \<times> rng)" where
  "process_reviews_data parse now g reviews_data =
     (let df = pd_DataFrame reviews_data in
      case getitem df ''stars'' of
        Inl e \<Rightarrow> Inl e
      | Inr stars \<Rightarrow>
          (case to_numeric parse stars of
             Inl e \<Rightarrow> Inl e
           | Inr numeric \<Rightarrow>
               (let df1 = setitem df ''stars'' numeric;
                    end_date = now;
                    start_date = end_date - timedelta_days 730
                in case random_dates start_date (index_len df1) g of
                     (dates, g') \<Rightarrow>
                       (let df2 = setitem df1 ''review_date'' (DateCol dates);
                            df3 = setitem df2 ''review_date'' (DateCol (to_datetime dates))
                        in Inr (df3, g')))))"

subsection \<open>The summary block (lines 117 to 120)\<close>

text \<open>\<^verbatim>\<open>series.iloc[0]\<close> raises \<^verbatim>\<open>IndexError\<close> on a series without rows.\<close>

definition iloc0 :: "column \<Rightarrow> error + pyval" where
  "iloc0 c = (case cells c of [] \<Rightarrow> Inl IndexError | v # vs \<Rightarrow> Inr v)"

text \<open>The numbers of a float column, nan cells skipped.\<close>

fun dropna_num :: "number list \<Rightarrow> rat list" where
  "dropna_num [] = []"
| "dropna_num (NaN # xs) = dropna_num xs"
| "dropna_num (Num x # xs) = x # dropna_num xs"

text \<open>Rounding to the nearest integer, a tie to the even neighbour.\<close>

definition round_half_even :: "rat \<Rightarrow> int" where
  "round_half_even x =
     (let f = \<lfloor>x\<rfloor>; d = x - of_int f
      in if d < 1 / 2 then f
         else if 1 / 2 < d then f + 1
         else if even f then f else f + 1)"

text \<open>
  Rounding to the nearest float64 (binary64: 53 significant bits, the smallest exponent
  -1022, ties to even). \<open>ilog2 x\<close> is the exponent of a positive \<open>x\<close>, the integer
  \<open>e\<close> with \<open>2 ^ e \<le> x < 2 ^ (e + 1)\<close>. Overflow to infinity is not represented.
\<close>

function bitlen :: "int \<Rightarrow> int" where
  "bitlen n = (if n \<le> 0 then 0 else 1 + bitlen (n div 2))"
  by pat_completeness auto
termination
  by (relation "measure nat") auto

declare bitlen.simps [simp del]

definition ilog2 :: "rat \<Rightarrow> int" where
  "ilog2 x =
     (case quotient_of x of
        (a, b) \<Rightarrow>
          (let e = bitlen a - bitlen b
           in if 2 powi e \<le> x then e else e - 1))"

definition float64 :: "rat \<Rightarrow> rat" where
  "float64 x =
     (if x = 0 then 0
      else (let e = max (ilog2 \<bar>x\<bar>) (- 1022); q = 2 powi (e - 52)
            in of_int (round_half_even (x / q)) * q))"

text \<open>
  \<^verbatim>\<open>Series.mean()\<close> (\<^verbatim>\<open>nanmean\<close>, \<^verbatim>\<open>skipna=True\<close>): the cells are taken as
  float64 with nan replaced by zero, summed in float64, and the sum is divided by the
  number of cells that are not nan; with no such cell the mean is nan. The order in
  which the library adds the cells is not the script's (numpy adds pairwise, bottleneck
  in sequence): the summation is the parameter \<open>fsum\<close>.
\<close>

type_synonym summation = "rat list \<Rightarrow> rat"

fun fill_zero :: "number \<Rightarrow> rat" where
  "fill_zero NaN = 0"
| "fill_zero (Num x) = float64 x"

definition mean :: "summation \<Rightarrow> number list \<Rightarrow> number" where
  "mean fsum xs =
     (let n = length (dropna_num xs)
      in if n = 0 then NaN else Num (float64 (fsum (map fill_zero xs) / of_nat n)))"

text \<open>
  After \<open>process_reviews_data\<close> the stars column is numeric. The mean of a column of
  another dtype is not modelled and is reported as \<open>TypeError\<close>.
\<close>

fun series_mean :: "summation \<Rightarrow> column \<Rightarrow> error + number" where
  "series_mean fsum (NumCol xs) = Inr (mean fsum xs)"
| "series_mean fsum (ObjCol vs) = Inl TypeError"
| "series_mean fsum (DateCol ts) = Inl TypeError"

text \<open>
  The format \<^verbatim>\<open>:.2f\<close> of a float64: the decimal with two places nearest to the
  value of the float64, a tie to the even neighbour, a minus sign for a negative number,
  \<^verbatim>\<open>nan\<close> for nan.
\<close>

definition digit_char :: "nat \<Rightarrow> char" where
  "digit_char d = char_of (48 + d)"

fun digits :: "nat \<Rightarrow> string" where
  "digits n = (if n < 10 then [digit_char n] else digits (n div 10) @ [digit_char (n mod 10)])"

definition hundredths :: "rat \<Rightarrow> nat" where
  "hundredths x = nat (round_half_even (\<bar>x\<bar> * 100))"

fun format_2f :: "number \<Rightarrow> string" where
  "format_2f NaN = ''nan''"
| "format_2f (Num x) =
     (if x < 0 then ''-'' else []) @
     digits (hundredths x div 100) @ ''.'' @
     [digit_char (hundredths x mod 100 div 10), digit_char (hundredths x mod 10)]"

text \<open>
  What the four \<^verbatim>\<open>st.write\<close> lines interpolate, in their order; the first lookup that
  raises ends the block.
\<close>

record summary_view =
  title :: pyval
  category :: pyval
  reviews_count :: pyval
  mean_rating :: string

definition summary :: "summation \<Rightarrow> dataframe \<Rightarrow> error + summary_view" where
  "summary fsum df =
     (case getitem df ''title'' of
        Inl e \<Rightarrow> Inl e
      | Inr c1 \<Rightarrow>
     (case iloc0 c1 of
        Inl e \<Rightarrow> Inl e
      | Inr t \<Rightarrow>
     (case getitem df ''categoryName'' of
        Inl e \<Rightarrow> Inl e
      | Inr c2 \<Rightarrow>
     (case iloc0 c2 of
        Inl e \<Rightarrow> Inl e
      | Inr cat \<Rightarrow>
     (case getitem df ''reviewsCount'' of
        Inl e \<Rightarrow> Inl e
      | Inr c3 \<Rightarrow>
     (case iloc0 c3 of
        Inl e \<Rightarrow> Inl e
      | Inr cnt \<Rightarrow>
     (case getitem df ''stars'' of
        Inl e \<Rightarrow> Inl e
      | Inr c4 \<Rightarrow>
     (case series_mean fsum c4 of
        Inl e \<Rightarrow> Inl e
      | Inr m \<Rightarrow>
          Inr \<lparr> title = t, category = cat, reviews_count = cnt,
                mean_rating = format_2f m \<rparr>))))))))"

subsection \<open>\<^verbatim>\<open>create_graphs\<close>\<close>

text \<open>
  \<^verbatim>\<open>value_counts().sort_index()\<close> on a float column: nan is dropped
  (\<^verbatim>\<open>dropna=True\<close>), one entry per distinct value with its number of rows, ascending
  by value.
\<close>

definition value_counts_sort_index :: "number list \<Rightarrow> (rat \<times> nat) list" where
  "value_counts_sort_index xs =
     (let vs = dropna_num xs
      in map (\<lambda>v. (v, count_list vs v)) (sort (remdups vs)))"

text \<open>
  The calendar month of a timestamp: its day number since 1970-01-01, the civil date of
  that day in the proleptic Gregorian calendar, and the month counted from year 0
  (\<open>12 * year + month - 1\<close>).
\<close>

definition day_number :: "int \<Rightarrow> int" where
  "day_number t = t div 86400000000"

definition civil_from_days :: "int \<Rightarrow> int \<times> int \<times> int" where
  "civil_from_days z =
     (let z1 = z + 719468;
          era = z1 div 146097;
          doe = z1 - era * 146097;
          yoe = (doe - doe div 1460 + doe div 36524 - doe div 146096) div 365;
          y = yoe + era * 400;
          doy = doe - (365 * yoe + yoe div 4 - yoe div 100);
          mp = (5 * doy + 2) div 153;
          d = doy - (153 * mp + 2) div 5 + 1;
          m = (if mp < 10 then mp + 3 else mp - 9)
      in (if m \<le> 2 then y + 1 else y, m, d))"

definition month_index :: "int \<Rightarrow> int" where
  "month_index t = (case civil_from_days (day_number t) of (y, m, d) \<Rightarrow> 12 * y + (m - 1))"

text \<open>
  \<^verbatim>\<open>resample('M').size()\<close> over a datetime index: one bin per calendar month from
  the month of the earliest row to the month of the latest, months without rows
  included with size 0, in chronological order. A bin is named here by its month index
  (pandas labels it with the last day of that month). Without rows there is no bin.
\<close>

definition resample_M_size :: "int list \<Rightarrow> (int \<times> nat) list" where
  "resample_M_size ts =
     (case map month_index ts of
        [] \<Rightarrow> []
      | k # ks \<Rightarrow>
          map (\<lambda>m. (m, count_list (k # ks) m)) [fold min ks k .. fold max ks k])"

text \<open>
  The two charts: the rating distribution (line 66) and the reviews per month
  (line 72). \<^verbatim>\<open>resample\<close> raises \<^verbatim>\<open>TypeError\<close> when the index is not a datetime
  index. The rating distribution is modelled for the float stars column that
  \<open>process_reviews_data\<close> leaves; another dtype is reported as \<open>TypeError\<close>.
\<close>

definition create_graphs ::
  "dataframe \<Rightarrow> error + ((rat \<times> nat) list \<times> (int \<times> nat) list)" where
  "create_graphs df =
     (case getitem df ''stars'' of
        Inl e \<Rightarrow> Inl e
      | Inr (ObjCol vs) \<Rightarrow> Inl TypeError
      | Inr (DateCol ts) \<Rightarrow> Inl TypeError
      | Inr (NumCol xs) \<Rightarrow>
          (let star_counts = value_counts_sort_index xs
           in case getitem df ''review_date'' of
                Inl e \<Rightarrow> Inl e
              | Inr (ObjCol vs) \<Rightarrow> Inl TypeError
              | Inr (NumCol ys) \<Rightarrow> Inl TypeError
              | Inr (DateCol ts) \<Rightarrow> Inr (star_counts, resample_M_size ts)))"

definition rating_histogram :: "dataframe \<Rightarrow> error + (rat \<times> nat) list" where
  "rating_histogram df = (case create_graphs df of Inl e \<Rightarrow> Inl e | Inr (h, m) \<Rightarrow> Inr h)"

definition monthly_counts :: "dataframe \<Rightarrow> error + (int \<times> nat) list" where
  "monthly_counts df = (case create_graphs df of Inl e \<Rightarrow> Inl e | Inr (h, m) \<Rightarrow> Inr m)"

subsection \<open>The projection sent to the analysis (line 144)\<close>

text \<open>\<^verbatim>\<open>df[[...]]\<close>: the named columns in the order asked, \<^verbatim>\<open>KeyError\<close> for a
  label that is missing.\<close>

fun select_columns :: "(string \<times> column) list \<Rightarrow> string list \<Rightarrow> error + (string \<times> column) list" where
  "select_columns cs [] = Inr []"
| "select_columns cs (k # ks) =
     (case map_of cs k of
        None \<Rightarrow> Inl (KeyError k)
      | Some c \<Rightarrow>
          (case select_columns cs ks of
             Inl e \<Rightarrow> Inl e
           | Inr rest \<Rightarrow> Inr ((k, c) # rest)))"

definition getitems :: "dataframe \<Rightarrow> string list \<Rightarrow> error + dataframe" where
  "getitems df names =
     (case select_columns (cols df) names of
        Inl e \<Rightarrow> Inl e
      | Inr cs \<Rightarrow> Inr \<lparr> index_len = index_len df, cols = cs \<rparr>)"

text \<open>\<^verbatim>\<open>isna\<close>: \<^verbatim>\<open>None\<close> and nan are missing values.\<close>

fun isnull :: "pyval \<Rightarrow> bool" where
  "isnull PNone = True"
| "isnull PNaN = True"
| "isnull v = False"

text \<open>The rows of a column that a boolean mask keeps.\<close>

definition keep :: "bool list \<Rightarrow> 'a list \<Rightarrow> 'a list" where
  "keep sel xs = map snd (filter fst (zip sel xs))"

fun keep_rows :: "bool list \<Rightarrow> column \<Rightarrow> column" where
  "keep_rows sel (ObjCol vs) = ObjCol (keep sel vs)"
| "keep_rows sel (NumCol xs) = NumCol (keep sel xs)"
| "keep_rows sel (DateCol ts) = DateCol (keep sel ts)"

text \<open>
  \<^verbatim>\<open>dropna(subset=names)\<close>: a row stays when none of the named columns is missing
  in it.
\<close>

fun notna_mask :: "dataframe \<Rightarrow> string list \<Rightarrow> error + bool list" where
  "notna_mask df [] = Inr (replicate (index_len df) True)"
| "notna_mask df (k # ks) =
     (case getitem df k of
        Inl e \<Rightarrow> Inl e
      | Inr c \<Rightarrow>
          (case notna_mask df ks of
             Inl e \<Rightarrow> Inl e
           | Inr sel \<Rightarrow> Inr (map (\<lambda>(v, b). \<not> isnull v \<and> b) (zip (cells c) sel))))"

definition dropna :: "string list \<Rightarrow> dataframe \<Rightarrow> error + dataframe" where
  "dropna names df =
     (case notna_mask df names of
        Inl e \<Rightarrow> Inl e
      | Inr sel \<Rightarrow>
          Inr \<lparr> index_len = length (filter id sel),
                cols = map (\<lambda>(n, c). (n, keep_rows sel c)) (cols df) \<rparr>)"

definition df_ai :: "dataframe \<Rightarrow> error + dataframe" where
  "df_ai df =
     (case getitems df [''stars'', ''text''] of
        Inl e \<Rightarrow> Inl e
      | Inr projected \<Rightarrow> dropna [''text''] projected)"

text \<open>The rows of a table, each the list of its cells in column order.\<close>

definition row :: "dataframe \<Rightarrow> nat \<Rightarrow> pyval list" where
  "row df i = map (\<lambda>c. cells (snd c) ! i) (cols df)"

definition rows :: "dataframe \<Rightarrow> pyval list list" where
  "rows df = map (row df) [0 ..< index_len df]"

subsection \<open>The transfer text (lines 145 to 148)\<close>

text \<open>
  \<^verbatim>\<open>df_ai.to_csv(path, index=False)\<close> writes the header and one line per row with
  Python's \<^verbatim>\<open>csv.writer\<close> (comma, double quote, minimal quoting, quotes doubled)
  and the line terminator \<^verbatim>\<open>os.linesep\<close>, here the parameter \<open>lt\<close>; the file is
  opened without newline translation. A missing cell is written as the empty string
  (\<^verbatim>\<open>na_rep\<close>); how any other cell prints is the library's \<^verbatim>\<open>str\<close>, the parameter
  \<open>str\<close>. A field is quoted when it holds the delimiter, the quote character, a
  carriage return, a line feed or a character of the line terminator (Python before
  3.13 quotes a carriage return or line feed only when the terminator holds it; the
  terminator always holds the line feed). A line of one empty field is written as two
  quotes.
\<close>

abbreviation LF :: char where "LF \<equiv> CHR 0x0A"
abbreviation CR :: char where "CR \<equiv> CHR 0x0D"
abbreviation comma :: char where "comma \<equiv> CHR 0x2C"
abbreviation dquote :: char where "dquote \<equiv> CHR 0x22"

definition needs_quoting :: "string \<Rightarrow> string \<Rightarrow> bool" where
  "needs_quoting lt s =
     list_ex (\<lambda>c. c = comma \<or> c = dquote \<or> c = CR \<or> c = LF \<or> c \<in> set lt) s"

fun escape_quotes :: "string \<Rightarrow> string" where
  "escape_quotes [] = []"
| "escape_quotes (c # cs) = (if c = dquote then [c, c] else [c]) @ escape_quotes cs"

definition csv_field :: "string \<Rightarrow> string \<Rightarrow> string" where
  "csv_field lt s = (if needs_quoting lt s then dquote # escape_quotes s @ [dquote] else s)"

fun join_fields :: "string list \<Rightarrow> string" where
  "join_fields [] = []"
| "join_fields [f] = f"
| "join_fields (f # fs) = f @ comma # join_fields fs"

definition csv_line :: "string \<Rightarrow> string list \<Rightarrow> string" where
  "csv_line lt fs =
     (if fs = [[]] then [dquote, dquote] else join_fields (map (csv_field lt) fs)) @ lt"

definition cell_text :: "(pyval \<Rightarrow> string) \<Rightarrow> pyval \<Rightarrow> string" where
  "cell_text str v = (if isnull v then [] else str v)"

definition to_csv :: "(pyval \<Rightarrow> string) \<Rightarrow> string \<Rightarrow> dataframe \<Rightarrow> string" where
  "to_csv str lt df =
     csv_line lt (column_names df) @
     concat (map (\<lambda>r. csv_line lt (map (cell_text str) r)) (rows df))"

text \<open>
  \<^verbatim>\<open>open(path, 'r').read()\<close> reads in text mode with universal newlines: a carriage
  return followed by a line feed, and a carriage return alone, both become one line
  feed. Writing and reading use the same encoding here, so the characters are read as
  they were written.
\<close>

fun universal_newlines :: "string \<Rightarrow> string" where
  "universal_newlines [] = []"
| "universal_newlines [c] = (if c = CR then [LF] else [c])"
| "universal_newlines (c # d # cs) =
     (if c = CR \<and> d = LF then LF # universal_newlines cs
      else if c = CR then LF # universal_newlines (d # cs)
      else c # universal_newlines (d # cs))"

text \<open>The string \<^verbatim>\<open>csv_data\<close> of line 148, for the projection \<open>d\<close> of line 144.\<close>

definition csv_data :: "(pyval \<Rightarrow> string) \<Rightarrow> string \<Rightarrow> dataframe \<Rightarrow> string" where
  "csv_data str lt d = universal_newlines (to_csv str lt d)"

text \<open>
  From the fetched records to the projection: \<open>process_reviews_data\<close> (line 105), then
  \<open>df_ai\<close> (line 144).
\<close>

definition fetched_projection ::
  "parser \<Rightarrow> int \<Rightarrow> rng \<Rightarrow> raw_review list \<Rightarrow> error + dataframe" where
  "fetched_projection parse now g reviews_data =
     (case process_reviews_data parse now g reviews_data of
        Inl e \<Rightarrow> Inl e
      | Inr (df, g') \<Rightarrow> df_ai df)"

text \<open>
  A projection as a value: the ratings in a float column, the texts, all of them
  strings, in an object column.
\<close>

definition two_columns :: "number list \<Rightarrow> string list \<Rightarrow> dataframe" where
  "two_columns xs ss =
     \<lparr> index_len = length ss,
       cols = [(''stars'', NumCol xs), (''text'', ObjCol (map PStr ss))] \<rparr>"

text \<open>A string free of the characters that make \<open>csv_field\<close> quote.\<close>

definition plain :: "string \<Rightarrow> bool" where
  "plain s = list_all (\<lambda>c. c \<noteq> comma \<and> c \<noteq> dquote \<and> c \<noteq> CR \<and> c \<noteq> LF) s"

text \<open>
  The text of one row of a projection as it stands in \<open>csv_data\<close>: the rating as it
  prints (nothing for nan), a comma, the text as a field, a line feed.
\<close>

definition rating_text :: "(pyval \<Rightarrow> string) \<Rightarrow> number \<Rightarrow> string" where
  "rating_text str x = cell_text str (number_cell x)"

definition transfer_line :: "(pyval \<Rightarrow> string) \<Rightarrow> number \<times> string \<Rightarrow> string" where
  "transfer_line str p = rating_text str (fst p) @ comma # csv_field [LF] (snd p) @ [LF]"

subsection \<open>Concrete inputs\<close>

text \<open>
  Inputs at which the model is evaluated below. \<open>plain_parser\<close> reads a string of
  decimal digits and takes the empty string for nan, as pandas does; every other
  string is no number for it. \<open>cafe_reviews\<close> are two records of one business, the
  second without review text.
\<close>

definition plain_parser :: parser where
  "plain_parser s =
     (if s = [] then Some NaN
      else if list_all (\<lambda>c. 48 \<le> (of_char c :: nat) \<and> (of_char c :: nat) \<le> 57) s
      then Some (Num (of_nat (foldl (\<lambda>n c. 10 * n + (of_char c - 48)) (0 :: nat) s)))
      else None)"

definition sample_rng :: rng where
  "sample_rng n = 1000 * n + 17"

definition cafe_reviews :: "raw_review list" where
  "cafe_reviews =
     [[(''stars'', PNum 5), (''text'', PStr ''Great''), (''title'', PStr ''Cafe X''),
       (''categoryName'', PStr ''Cafe''), (''reviewsCount'', PNum 2)],
      [(''stars'', PNum 3), (''text'', PNone), (''title'', PStr ''Cafe X''),
       (''categoryName'', PStr ''Cafe''), (''reviewsCount'', PNum 2)]]"

text \<open>
  The table \<open>process_reviews_data\<close> builds from \<open>cafe_reviews\<close> at the clock value
  \<open>1700000000000000\<close> with \<open>sample_rng\<close>, and the same for two records of which the
  second has a null rating.
\<close>

definition cafe_table :: dataframe where
  "cafe_table =
     \<lparr> index_len = 2,
       cols = [(''stars'', NumCol [Num 5, Num 3]),
               (''text'', ObjCol [PStr ''Great'', PNone]),
               (''title'', ObjCol [PStr ''Cafe X'', PStr ''Cafe X'']),
               (''categoryName'', ObjCol [PStr ''Cafe'', PStr ''Cafe'']),
               (''reviewsCount'', ObjCol [PNum 2, PNum 2]),
               (''review_date'', DateCol [1638396800000000, 1661638400000000])] \<rparr>"

definition gap_reviews :: "raw_review list" where
  "gap_reviews = [[(''stars'', PNum 5)], [(''stars'', PNone)]]"

definition gap_table :: dataframe where
  "gap_table =
     \<lparr> index_len = 2,
       cols = [(''stars'', NumCol [Num 5, NaN]),
               (''review_date'', DateCol [1638396800000000, 1661638400000000])] \<rparr>"

text \<open>A table with the columns of the summary block and no rows.\<close>

definition no_rows :: dataframe where
  "no_rows =
     \<lparr> index_len = 0,
       cols = [(''stars'', NumCol []), (''title'', ObjCol []),
               (''categoryName'', ObjCol []), (''reviewsCount'', ObjCol [])] \<rparr>"

text \<open>
  How cells print at the concrete inputs: a string as itself, the ratings 3 and 5 as
  their digit. Two one-record inputs whose review texts
  differ only in the line break, and their projections.
\<close>

fun plain_str :: "pyval \<Rightarrow> string" where
  "plain_str (PStr s) = s"
| "plain_str (PNum x) = (if x = 5 then ''5'' else if x = 3 then ''3'' else ''0'')"
| "plain_str v = ''?''"

definition crlf_reviews :: "raw_review list" where
  "crlf_reviews = [[(''stars'', PNum 5), (''text'', PStr [CHR ''a'', CR, LF, CHR ''b''])]]"

definition lf_reviews :: "raw_review list" where
  "lf_reviews = [[(''stars'', PNum 5), (''text'', PStr [CHR ''a'', LF, CHR ''b''])]]"

definition crlf_projection :: dataframe where
  "crlf_projection =
     \<lparr> index_len = 1,
       cols = [(''stars'', NumCol [Num 5]), (''text'', ObjCol [PStr [CHR ''a'', CR, LF, CHR ''b'']])] \<rparr>"

definition lf_projection :: dataframe where
  "lf_projection =
     \<lparr> index_len = 1,
       cols = [(''stars'', NumCol [Num 5]), (''text'', ObjCol [PStr [CHR ''a'', LF, CHR ''b'']])] \<rparr>"

definition cafe_projection :: dataframe where
  "cafe_projection =
     \<lparr> index_len = 1,
       cols = [(''stars'', NumCol [Num 5]), (''text'', ObjCol [PStr ''Great''])] \<rparr>"

text \<open>A summation for the concrete inputs: the float64 additions made in sequence.\<close>

definition sum_in_sequence :: summation where
  "sum_in_sequence vs = foldl (\<lambda>a v. float64 (a + v)) 0 vs"

section \<open>Facts about the table builder\<close>

lemma set_fast_unique: "set (fast_unique seen ks) = set ks - set seen"
  by (induction ks arbitrary: seen) auto

lemma distinct_fast_unique: "distinct (fast_unique seen ks)"
  by (induction ks arbitrary: seen) (auto simp: set_fast_unique)

lemma map_of_tabulate:
  "map_of (map (\<lambda>k. (k, f k)) ks) k = (if k \<in> set ks then Some (f k) else None)"
  by (induction ks) auto

lemma column_names_DataFrame:
  "set (column_names (pd_DataFrame rs)) = (\<Union>r\<in>set rs. fst ` set r)"
  by (auto simp: column_names_def pd_DataFrame_def set_fast_unique comp_def)

lemma getitem_DataFrame:
  "getitem (pd_DataFrame rs) k =
     (if k \<in> (\<Union>r\<in>set rs. fst ` set r) then Inr (ObjCol (map (field k) rs)) else Inl (KeyError k))"
  by (auto simp: getitem_def pd_DataFrame_def map_of_tabulate set_fast_unique)

lemma index_len_setitem [simp]: "index_len (setitem df n c) = index_len df"
  by (simp add: setitem_def)

lemma column_names_setitem:
  "column_names (setitem df n c) =
     (if n \<in> set (column_names df) then column_names df else column_names df @ [n])"
  by (auto simp: setitem_def column_names_def split_def comp_def intro!: map_cong)

lemma map_of_replace:
  "map_of (map (\<lambda>(n', old). if n' = n then (n', c) else (n', old)) cs) m =
     (if m = n then (if n \<in> fst ` set cs then Some c else None) else map_of cs m)"
  by (induction cs) (force split: if_splits)+

lemma getitem_setitem:
  "getitem (setitem df n c) m = (if m = n then Inr c else getitem df m)"
proof (cases "n \<in> fst ` set (cols df)")
  case True
  then show ?thesis
    by (simp add: getitem_def setitem_def column_names_def map_of_replace)
next
  case False
  then have "map_of (cols df) n = None" by (simp add: map_of_eq_None_iff)
  with False show ?thesis
    by (auto simp: getitem_def setitem_def column_names_def map_add_def split: option.splits)
qed

lemma wf_frame_setitem:
  "wf_frame df \<Longrightarrow> col_len c = index_len df \<Longrightarrow> wf_frame (setitem df n c)"
  by (auto simp: wf_frame_def setitem_def list_all_iff split: if_splits)

lemma wf_frame_DataFrame: "wf_frame (pd_DataFrame rs)"
  by (simp add: wf_frame_def pd_DataFrame_def list_all_iff)

lemma coerce_position:
  "coerce p i v = Inr x \<Longrightarrow> coerce p j v = Inr x"
  by (cases v) (auto split: option.splits)

lemma coercible_iff: "coercible p v \<longleftrightarrow> (\<exists>x. coerce p i v = Inr x)"
  by (cases v) (auto simp: coercible_def split: option.splits sum.splits)

lemma coerce_fails:
  "\<not> coercible p v \<Longrightarrow> coerce p i v = Inl (ValueErrorAt i) \<or> coerce p i v = Inl (TypeErrorAt i)"
  by (cases v) (auto simp: coercible_def split: option.splits sum.splits)

lemma to_numeric_from_Inr:
  "to_numeric_from p i vs = Inr xs \<Longrightarrow>
     length xs = length vs \<and> (\<forall>j<length vs. coerce p (i + j) (vs ! j) = Inr (xs ! j))"
proof (induction vs arbitrary: i xs)
  case Nil
  then show ?case by simp
next
  case (Cons v vs)
  from Cons.prems obtain x ys where x: "coerce p i v = Inr x"
    and ys: "to_numeric_from p (Suc i) vs = Inr ys" and xs: "xs = x # ys"
    by (auto split: sum.splits)
  from Cons.IH [OF ys] have len: "length ys = length vs"
    and rest: "\<forall>j<length vs. coerce p (Suc i + j) (vs ! j) = Inr (ys ! j)" by auto
  show ?case
  proof (intro conjI allI impI)
    show "length xs = length (v # vs)" using len xs by simp
  next
    fix j assume "j < length (v # vs)"
    then show "coerce p (i + j) ((v # vs) ! j) = Inr (xs ! j)"
      using x rest xs by (cases j) auto
  qed
qed

lemma to_numeric_from_total:
  "list_all (coercible p) vs \<Longrightarrow> \<exists>xs. to_numeric_from p i vs = Inr xs"
proof (induction vs arbitrary: i)
  case Nil
  then show ?case by simp
next
  case (Cons v vs)
  then obtain x where "coerce p i v = Inr x" using coercible_iff [of p v i] by auto
  moreover from Cons obtain ys where "to_numeric_from p (Suc i) vs = Inr ys" by auto
  ultimately show ?case by simp
qed

lemma to_numeric_from_raises:
  "\<not> list_all (coercible p) vs \<Longrightarrow>
     \<exists>j<length vs. (to_numeric_from p i vs = Inl (ValueErrorAt (i + j))
                    \<or> to_numeric_from p i vs = Inl (TypeErrorAt (i + j)))
       \<and> \<not> coercible p (vs ! j) \<and> (\<forall>k<j. coercible p (vs ! k))"
proof (induction vs arbitrary: i)
  case Nil
  then show ?case by simp
next
  case (Cons v vs)
  show ?case
  proof (cases "coercible p v")
    case False
    from coerce_fails [OF False, of i] have
      "to_numeric_from p i (v # vs) = Inl (ValueErrorAt (i + 0))
       \<or> to_numeric_from p i (v # vs) = Inl (TypeErrorAt (i + 0))" by auto
    with False show ?thesis by (intro exI [of _ 0]) simp
  next
    case True
    then obtain x where x: "coerce p i v = Inr x" using coercible_iff [of p v i] by auto
    from True Cons.prems have "\<not> list_all (coercible p) vs" by simp
    from Cons.IH [OF this, of "Suc i"] obtain j where j: "j < length vs"
      and err: "to_numeric_from p (Suc i) vs = Inl (ValueErrorAt (Suc i + j))
                \<or> to_numeric_from p (Suc i) vs = Inl (TypeErrorAt (Suc i + j))"
      and bad: "\<not> coercible p (vs ! j)" and good: "\<forall>k<j. coercible p (vs ! k)" by auto
    have "\<forall>k<Suc j. coercible p ((v # vs) ! k)"
      using True good by (auto simp: less_Suc_eq_0_disj)
    with j err bad x show ?thesis by (intro exI [of _ "Suc j"]) auto
  qed
qed


lemma replace_fresh:
  "n \<notin> fst ` set cs \<Longrightarrow>
     map (\<lambda>(n', old). if n' = n then (n', c) else (n', old)) cs = cs"
  by (induction cs) auto

lemma replace_replace:
  "map (\<lambda>(n', old). if n' = n then (n', c') else (n', old))
     (map (\<lambda>(n', old). if n' = n then (n', c) else (n', old)) cs)
   = map (\<lambda>(n', old). if n' = n then (n', c') else (n', old)) cs"
  by (induction cs) auto

lemma setitem_twice: "setitem (setitem df n c) n c' = setitem df n c'"
proof (cases "n \<in> set (column_names df)")
  case True
  then have "n \<in> set (column_names (setitem df n c))"
    by (simp add: column_names_setitem)
  with True show ?thesis
    by (simp add: setitem_def replace_replace del: map_map)
next
  case False
  then have "n \<in> set (column_names (setitem df n c))"
    by (simp add: column_names_setitem)
  moreover from False have "n \<notin> fst ` set (cols df)" by (simp add: column_names_def)
  ultimately show ?thesis using False
    by (simp add: setitem_def replace_fresh)
qed

lemma randint_range:
  "a \<le> b \<Longrightarrow> a \<le> fst (randint a b g) \<and> fst (randint a b g) \<le> b"
proof -
  assume ab: "a \<le> b"
  then have pos: "0 < nat (b - a + 1)" by simp
  have "g 0 mod nat (b - a + 1) < nat (b - a + 1)" using pos by simp
  then have "int (g 0 mod nat (b - a + 1)) < b - a + 1" using ab by linarith
  then show ?thesis by (simp add: randint_def)
qed

lemma randint_0_730: "fst (randint 0 730 g) = int (g 0 mod 731)"
  by (simp add: randint_def)

lemma snd_randint: "snd (randint a b g) = (\<lambda>n. g (Suc n))"
  by (simp add: randint_def)

lemma random_dates_shape:
  "fst (random_dates s n g) =
     map (\<lambda>i. s + timedelta_days (int (g i mod 731))) [0 ..< n]
   \<and> snd (random_dates s n g) = (\<lambda>k. g (k + n))"
proof (induction n arbitrary: g)
  case 0
  then show ?case by simp
next
  case (Suc n)
  let ?g1 = "\<lambda>k. g (Suc k)"
  have r: "randint 0 730 g = (int (g 0 mod 731), ?g1)" by (simp add: randint_def)
  obtain ds g2 where rd: "random_dates s n ?g1 = (ds, g2)" by (cases "random_dates s n ?g1")
  from Suc.IH [of ?g1] rd have ds: "ds = map (\<lambda>i. s + timedelta_days (int (g (Suc i) mod 731))) [0 ..< n]"
    and g2: "g2 = (\<lambda>k. g (Suc (k + n)))" by auto
  have "map (\<lambda>i. s + timedelta_days (int (g i mod 731))) [0 ..< Suc n]
        = (s + timedelta_days (int (g 0 mod 731))) # map (\<lambda>i. s + timedelta_days (int (g (Suc i) mod 731))) [0 ..< n]"
    by (simp add: upt_conv_Cons map_Suc_upt [symmetric] del: upt_Suc)
  with r rd ds g2 show ?case by simp
qed

lemma process_reviews_data_Inr:
  assumes col: "''stars'' \<in> (\<Union>r\<in>set rs. fst ` set r)"
    and num: "to_numeric_from p 0 (map (field ''stars'') rs) = Inr xs"
  shows "process_reviews_data p now g rs =
     Inr (setitem (setitem (pd_DataFrame rs) ''stars'' (NumCol xs)) ''review_date''
            (DateCol (map (\<lambda>i. now - timedelta_days 730 + timedelta_days (int (g i mod 731)))
                        [0 ..< length rs])),
          \<lambda>k. g (k + length rs))"
proof -
  have len: "index_len (pd_DataFrame rs) = length rs" by (simp add: pd_DataFrame_def)
  obtain ds g' where rd: "random_dates (now - timedelta_days 730) (length rs) g = (ds, g')"
    by (cases "random_dates (now - timedelta_days 730) (length rs) g")
  with random_dates_shape [of "now - timedelta_days 730" "length rs" g]
  have ds: "ds = map (\<lambda>i. now - timedelta_days 730 + timedelta_days (int (g i mod 731))) [0 ..< length rs]"
    and g': "g' = (\<lambda>k. g (k + length rs))" by auto
  show ?thesis
    using col num rd
    by (simp add: process_reviews_data_def getitem_DataFrame len setitem_twice to_datetime_def
        ds g' Let_def)
qed

lemma process_reviews_data_Inl_key:
  "''stars'' \<notin> (\<Union>r\<in>set rs. fst ` set r) \<Longrightarrow>
     process_reviews_data p now g rs = Inl (KeyError ''stars'')"
  by (simp add: process_reviews_data_def getitem_DataFrame Let_def)

lemma process_reviews_data_Inl_num:
  "''stars'' \<in> (\<Union>r\<in>set rs. fst ` set r) \<Longrightarrow>
   to_numeric_from p 0 (map (field ''stars'') rs) = Inl e \<Longrightarrow>
     process_reviews_data p now g rs = Inl e"
  by (simp add: process_reviews_data_def getitem_DataFrame Let_def)

lemma process_reviews_data_InrD:
  assumes "process_reviews_data p now g rs = Inr (df, g')"
  obtains xs where "''stars'' \<in> (\<Union>r\<in>set rs. fst ` set r)"
    and "to_numeric_from p 0 (map (field ''stars'') rs) = Inr xs"
    and "df = setitem (setitem (pd_DataFrame rs) ''stars'' (NumCol xs)) ''review_date''
            (DateCol (map (\<lambda>i. now - timedelta_days 730 + timedelta_days (int (g i mod 731)))
                        [0 ..< length rs]))"
    and "g' = (\<lambda>k. g (k + length rs))"
proof (cases "''stars'' \<in> (\<Union>r\<in>set rs. fst ` set r)")
  case False
  with assms show ?thesis by (simp add: process_reviews_data_Inl_key)
next
  case True
  show ?thesis
  proof (cases "to_numeric_from p 0 (map (field ''stars'') rs)")
    case (Inl e)
    with True assms show ?thesis by (simp add: process_reviews_data_Inl_num)
  next
    case (Inr xs)
    from process_reviews_data_Inr [OF True Inr, of now g] assms that [OF True Inr]
    show ?thesis by simp
  qed
qed

lemma field_present: "map_of r k = Some v \<Longrightarrow> field k r = v"
  by (simp add: field_def)

lemma key_present: "map_of r k = Some v \<Longrightarrow> k \<in> fst ` set r"
  by (metis domI dom_map_of_conv_image_fst)

section \<open>Facts about the charts\<close>

lemma dropna_num_filter: "map Num (dropna_num xs) = filter (\<lambda>x. x \<noteq> NaN) xs"
  by (induction xs rule: dropna_num.induct) auto

lemma length_dropna_num: "length (dropna_num xs) = length (filter (\<lambda>x. x \<noteq> NaN) xs)"
  by (metis dropna_num_filter length_map)

lemma set_dropna_num: "v \<in> set (dropna_num xs) \<longleftrightarrow> Num v \<in> set xs"
  by (induction xs rule: dropna_num.induct) auto

lemma dropna_num_map_Num [simp]: "dropna_num (map Num vs) = vs"
  by (induction vs) auto

lemma count_dropna_num: "count_list (dropna_num xs) v = count_list xs (Num v)"
  by (induction xs rule: dropna_num.induct) auto

lemma sum_counts_distinct:
  "distinct ks \<Longrightarrow> set vs \<subseteq> set ks \<Longrightarrow> sum_list (map (count_list vs) ks) = length vs"
proof -
  assume d: "distinct ks" and s: "set vs \<subseteq> set ks"
  have "sum_list (map (count_list vs) ks) = sum (count_list vs) (set ks)"
    using d by (rule sum_list_distinct_conv_sum_set)
  also have "\<dots> = length vs" using s by (simp add: sum_count_set)
  finally show ?thesis .
qed

lemma value_counts_keys:
  "map fst (value_counts_sort_index xs) = sort (remdups (dropna_num xs))"
  by (simp add: value_counts_sort_index_def Let_def comp_def)

lemma value_counts_sorted: "sorted_wrt (<) (map fst (value_counts_sort_index xs))"
  by (simp add: value_counts_keys strict_sorted_iff)

lemma value_counts_present:
  "(v, c) \<in> set (value_counts_sort_index xs) \<longleftrightarrow>
     Num v \<in> set xs \<and> c = count_list xs (Num v)"
  by (auto simp: value_counts_sort_index_def Let_def set_dropna_num count_dropna_num)

lemma value_counts_total:
  "sum_list (map snd (value_counts_sort_index xs)) = length (filter (\<lambda>x. x \<noteq> NaN) xs)"
proof -
  have "sum_list (map snd (value_counts_sort_index xs))
        = sum_list (map (count_list (dropna_num xs)) (sort (remdups (dropna_num xs))))"
    by (simp add: value_counts_sort_index_def Let_def comp_def)
  also have "\<dots> = length (dropna_num xs)"
    by (rule sum_counts_distinct) simp_all
  finally show ?thesis by (simp add: length_dropna_num)
qed

lemma fold_min_le: "fold min ks (k::int) \<le> k \<and> (\<forall>x\<in>set ks. fold min ks k \<le> x)"
proof (induction ks arbitrary: k)
  case Nil
  then show ?case by simp
next
  case (Cons a ks)
  from Cons.IH [of "min a k"] show ?case by auto
qed

lemma fold_max_ge: "k \<le> fold max ks (k::int) \<and> (\<forall>x\<in>set ks. x \<le> fold max ks k)"
proof (induction ks arbitrary: k)
  case Nil
  then show ?case by simp
next
  case (Cons a ks)
  from Cons.IH [of "max a k"] show ?case by auto
qed

lemma resample_keys_sorted: "sorted_wrt (<) (map fst (resample_M_size ts))"
  by (cases "map month_index ts") (simp_all add: resample_M_size_def comp_def strict_sorted_iff del: upto.simps)

lemma resample_total: "sum_list (map snd (resample_M_size ts)) = length ts"
proof (cases "map month_index ts")
  case Nil
  then show ?thesis by (simp add: resample_M_size_def)
next
  case (Cons k ks)
  have "set (k # ks) \<subseteq> set [fold min ks k .. fold max ks k]"
    using fold_min_le [where ks = ks and k = k] fold_max_ge [where ks = ks and k = k] by auto
  then have "sum_list (map (count_list (k # ks)) [fold min ks k .. fold max ks k]) = length (k # ks)"
    by (intro sum_counts_distinct) simp_all
  moreover have "length (k # ks) = length ts" using Cons by (metis length_map)
  ultimately show ?thesis using Cons by (simp add: resample_M_size_def comp_def del: upto.simps count_list.simps)
qed

lemma resample_bucket:
  "(m, c) \<in> set (resample_M_size ts) \<Longrightarrow> c = length (filter (\<lambda>t. month_index t = m) ts)"
proof (cases "map month_index ts")
  case Nil
  assume "(m, c) \<in> set (resample_M_size ts)"
  with Nil show ?thesis by (simp add: resample_M_size_def)
next
  case (Cons k ks)
  assume "(m, c) \<in> set (resample_M_size ts)"
  with Cons have "c = count_list (map month_index ts) m"
    by (auto simp: resample_M_size_def simp del: upto.simps count_list.simps)
  also have "\<dots> = length (filter (\<lambda>t. month_index t = m) ts)"
    by (induction ts) auto
  finally show ?thesis .
qed

lemma resample_covers:
  "t \<in> set ts \<Longrightarrow> month_index t \<in> fst ` set (resample_M_size ts)"
proof (cases "map month_index ts")
  case Nil
  assume "t \<in> set ts"
  with Nil show ?thesis by simp
next
  case (Cons k ks)
  assume "t \<in> set ts"
  then have "month_index t \<in> set (k # ks)" using Cons by (metis image_eqI set_map)
  then have "month_index t \<in> set [fold min ks k .. fold max ks k]"
    using fold_min_le [where ks = ks and k = k] fold_max_ge [where ks = ks and k = k] by auto
  then show ?thesis using Cons
    by (simp add: resample_M_size_def image_comp comp_def del: upto.simps count_list.simps)
qed

section \<open>The table of a successful run\<close>

lemma cafe_run:
  "process_reviews_data plain_parser 1700000000000000 sample_rng cafe_reviews
     = Inr (cafe_table, \<lambda>k. sample_rng (k + 2))"
proof -
  have col: "''stars'' \<in> (\<Union>r\<in>set cafe_reviews. fst ` set r)"
    by (simp add: cafe_reviews_def)
  have num: "to_numeric_from plain_parser 0 (map (field ''stars'') cafe_reviews) = Inr [Num 5, Num 3]"
    by (simp add: cafe_reviews_def field_def)
  have tab: "setitem (setitem (pd_DataFrame cafe_reviews) ''stars'' (NumCol [Num 5, Num 3])) ''review_date''
            (DateCol (map (\<lambda>i. 1700000000000000 - timedelta_days 730 + timedelta_days (int (sample_rng i mod 731)))
                        [0 ..< length cafe_reviews])) = cafe_table"
    by code_simp
  have len: "length cafe_reviews = 2" by (simp add: cafe_reviews_def)
  from process_reviews_data_Inr [OF col num, of 1700000000000000 sample_rng] tab len
  show ?thesis by simp
qed

lemma gap_run:
  "process_reviews_data plain_parser 1700000000000000 sample_rng gap_reviews
     = Inr (gap_table, \<lambda>k. sample_rng (k + 2))"
proof -
  have col: "''stars'' \<in> (\<Union>r\<in>set gap_reviews. fst ` set r)"
    by (simp add: gap_reviews_def)
  have num: "to_numeric_from plain_parser 0 (map (field ''stars'') gap_reviews) = Inr [Num 5, NaN]"
    by (simp add: gap_reviews_def field_def)
  have tab: "setitem (setitem (pd_DataFrame gap_reviews) ''stars'' (NumCol [Num 5, NaN])) ''review_date''
            (DateCol (map (\<lambda>i. 1700000000000000 - timedelta_days 730 + timedelta_days (int (sample_rng i mod 731)))
                        [0 ..< length gap_reviews])) = gap_table"
    by code_simp
  have len: "length gap_reviews = 2" by (simp add: gap_reviews_def)
  from process_reviews_data_Inr [OF col num, of 1700000000000000 sample_rng] tab len
  show ?thesis by simp
qed

lemma process_reviews_data_table:
  assumes "process_reviews_data p now g rs = Inr (df, g')"
  obtains xs where "getitem df ''stars'' = Inr (NumCol xs)"
    and "getitem df ''review_date'' =
           Inr (DateCol (map (\<lambda>i. now - timedelta_days 730 + timedelta_days (int (g i mod 731)))
                          [0 ..< length rs]))"
    and "length xs = length rs"
    and "index_len df = length rs"
    and "\<forall>i<length rs. coerce p i (field ''stars'' (rs ! i)) = Inr (xs ! i)"
    and "g' = (\<lambda>k. g (k + length rs))"
    and "rs \<noteq> []"
proof -
  from assms obtain xs where col: "''stars'' \<in> (\<Union>r\<in>set rs. fst ` set r)"
    and num: "to_numeric_from p 0 (map (field ''stars'') rs) = Inr xs"
    and df: "df = setitem (setitem (pd_DataFrame rs) ''stars'' (NumCol xs)) ''review_date''
            (DateCol (map (\<lambda>i. now - timedelta_days 730 + timedelta_days (int (g i mod 731)))
                        [0 ..< length rs]))"
    and g': "g' = (\<lambda>k. g (k + length rs))"
    by (rule process_reviews_data_InrD)
  from to_numeric_from_Inr [OF num] have len: "length xs = length rs"
    and conv: "\<forall>i<length rs. coerce p i (field ''stars'' (rs ! i)) = Inr (xs ! i)" by auto
  from col have ne: "rs \<noteq> []" by auto
  show ?thesis
    by (rule that [of xs]) (simp_all add: df getitem_setitem len conv g' ne pd_DataFrame_def)
qed

lemma timedelta_days_mono: "a \<le> b \<Longrightarrow> timedelta_days a \<le> timedelta_days b"
  by (simp add: timedelta_days_def)

lemma offset_bounds:
  "0 \<le> timedelta_days (int (r mod 731)) \<and> timedelta_days (int (r mod 731)) \<le> timedelta_days 730"
proof -
  have "r mod 731 < 731" by simp
  then have "int (r mod 731) \<le> 730" by linarith
  then have "timedelta_days (int (r mod 731)) \<le> timedelta_days 730"
    by (rule timedelta_days_mono)
  moreover have "0 \<le> timedelta_days (int (r mod 731))"
    unfolding timedelta_days_def by simp
  ultimately show ?thesis by simp
qed

lemma randint_shift: "fst (randint 0 730 (\<lambda>k. g (k + i))) = int (g i mod 731)"
  by (simp add: randint_def)

lemma create_graphs_numeric:
  "getitem df ''stars'' = Inr (NumCol xs) \<Longrightarrow> getitem df ''review_date'' = Inr (DateCol ts) \<Longrightarrow>
     create_graphs df = Inr (value_counts_sort_index xs, resample_M_size ts)"
  by (simp add: create_graphs_def)

lemma rating_histogram_numeric:
  "getitem df ''stars'' = Inr (NumCol xs) \<Longrightarrow> getitem df ''review_date'' = Inr (DateCol ts) \<Longrightarrow>
     rating_histogram df = Inr (value_counts_sort_index xs)"
  by (simp add: rating_histogram_def create_graphs_numeric)

lemma monthly_counts_numeric:
  "getitem df ''stars'' = Inr (NumCol xs) \<Longrightarrow> getitem df ''review_date'' = Inr (DateCol ts) \<Longrightarrow>
     monthly_counts df = Inr (resample_M_size ts)"
  by (simp add: monthly_counts_def create_graphs_numeric)

lemma filter_no_nan: "NaN \<notin> set xs \<Longrightarrow> filter (\<lambda>x. x \<noteq> NaN) xs = xs"
  by (induction xs) auto

section \<open>Facts about missing ratings\<close>

lemma coerce_Inl:
  "coerce p k v = Inl e \<Longrightarrow> \<not> isnull v \<and> (e = ValueErrorAt k \<or> e = TypeErrorAt k)"
  by (cases v) (auto split: option.splits)

lemma isnull_coercible: "isnull v \<Longrightarrow> coercible p v"
  by (cases v) (auto simp: coercible_def)

lemma isnull_coerce: "isnull v \<Longrightarrow> coerce p k v = Inr NaN"
  by (cases v) auto

lemma to_numeric_from_Inl:
  "to_numeric_from p i vs = Inl e \<Longrightarrow> \<exists>j<length vs. coerce p (i + j) (vs ! j) = Inl e"
proof (induction vs arbitrary: i)
  case Nil
  then show ?case by simp
next
  case (Cons v vs)
  show ?case
  proof (cases "coerce p i v")
    case (Inl e')
    with Cons.prems have "coerce p (i + 0) ((v # vs) ! 0) = Inl e" by simp
    then show ?thesis by blast
  next
    case (Inr x)
    with Cons.prems have "to_numeric_from p (Suc i) vs = Inl e"
      by (auto split: sum.splits)
    from Cons.IH [OF this] obtain j where "j < length vs"
      and "coerce p (Suc i + j) (vs ! j) = Inl e" by blast
    then have "Suc j < length (v # vs)" and "coerce p (i + Suc j) ((v # vs) ! Suc j) = Inl e"
      by simp_all
    then show ?thesis by blast
  qed
qed

lemma process_reviews_data_InlD:
  assumes "process_reviews_data p now g rs = Inl e"
  shows "e = KeyError ''stars'' \<or> to_numeric_from p 0 (map (field ''stars'') rs) = Inl e"
proof (cases "''stars'' \<in> (\<Union>r\<in>set rs. fst ` set r)")
  case False
  with assms show ?thesis by (simp add: process_reviews_data_Inl_key)
next
  case True
  show ?thesis
  proof (cases "to_numeric_from p 0 (map (field ''stars'') rs)")
    case (Inl e')
    with True assms show ?thesis by (simp add: process_reviews_data_Inl_num)
  next
    case (Inr xs)
    from process_reviews_data_Inr [OF True Inr, of now g] assms show ?thesis by simp
  qed
qed

lemma conversion_error_position:
  assumes "process_reviews_data p now g rs = Inl e"
    and "e = ValueErrorAt j \<or> e = TypeErrorAt j"
  shows "j < length rs \<and> \<not> isnull (field ''stars'' (rs ! j))"
proof -
  from process_reviews_data_InlD [OF assms(1)] assms(2)
  have "to_numeric_from p 0 (map (field ''stars'') rs) = Inl e" by auto
  from to_numeric_from_Inl [OF this] obtain k where k: "k < length rs"
    and c: "coerce p k (field ''stars'' (rs ! k)) = Inl e" by auto
  from coerce_Inl [OF c] assms(2) have "k = j" and "\<not> isnull (field ''stars'' (rs ! k))" by auto
  with k show ?thesis by simp
qed

lemma dropna_num_filter_nan: "dropna_num (filter (\<lambda>x. x \<noteq> NaN) xs) = dropna_num xs"
  by (induction xs rule: dropna_num.induct) auto

section \<open>Facts about the summary block\<close>

lemma getitem_len:
  "wf_frame df \<Longrightarrow> getitem df k = Inr c \<Longrightarrow> length (cells c) = index_len df"
proof -
  assume wf: "wf_frame df" and g: "getitem df k = Inr c"
  from g have "map_of (cols df) k = Some c"
    by (simp add: getitem_def split: option.splits)
  then have "(k, c) \<in> set (cols df)" by (rule map_of_SomeD)
  with wf have "col_len c = index_len df" by (auto simp: wf_frame_def list_all_iff)
  then show ?thesis by (cases c) simp_all
qed

lemma iloc0_empty: "cells c = [] \<Longrightarrow> iloc0 c = Inl IndexError"
  by (simp add: iloc0_def)

lemma iloc0_first: "cells c \<noteq> [] \<Longrightarrow> iloc0 c = Inr (hd (cells c))"
  by (cases "cells c") (simp_all add: iloc0_def)

lemma summary_no_rows:
  assumes wf: "wf_frame df" and z: "index_len df = 0"
  shows "summary fsum df = Inl IndexError \<or> summary fsum df = Inl (KeyError ''title'')"
proof (cases "getitem df ''title''")
  case (Inl e)
  then have "e = KeyError ''title''" by (simp add: getitem_def split: option.splits)
  with Inl show ?thesis by (simp add: summary_def)
next
  case (Inr c)
  from getitem_len [OF wf Inr] z have "cells c = []" by simp
  then have "iloc0 c = Inl IndexError" by (rule iloc0_empty)
  with Inr show ?thesis by (simp add: summary_def)
qed

lemma summary_rows:
  assumes wf: "wf_frame df" and pos: "0 < index_len df"
    and c1: "getitem df ''title'' = Inr c1"
    and c2: "getitem df ''categoryName'' = Inr c2"
    and c3: "getitem df ''reviewsCount'' = Inr c3"
    and c4: "getitem df ''stars'' = Inr (NumCol xs)"
  shows "summary fsum df = Inr \<lparr> title = hd (cells c1), category = hd (cells c2),
                            reviews_count = hd (cells c3), mean_rating = format_2f (mean fsum xs) \<rparr>"
proof -
  from getitem_len [OF wf c1] pos have "cells c1 \<noteq> []" by auto
  then have i1: "iloc0 c1 = Inr (hd (cells c1))" by (rule iloc0_first)
  from getitem_len [OF wf c2] pos have "cells c2 \<noteq> []" by auto
  then have i2: "iloc0 c2 = Inr (hd (cells c2))" by (rule iloc0_first)
  from getitem_len [OF wf c3] pos have "cells c3 \<noteq> []" by auto
  then have i3: "iloc0 c3 = Inr (hd (cells c3))" by (rule iloc0_first)
  show ?thesis by (simp add: summary_def c1 c2 c3 c4 i1 i2 i3)
qed

lemma round_half_even_error: "\<bar>of_int (round_half_even y) - y\<bar> \<le> 1 / 2"
proof -
  have lo: "of_int \<lfloor>y\<rfloor> \<le> y" by simp
  have hi: "y < of_int \<lfloor>y\<rfloor> + 1" by linarith
  show ?thesis
    unfolding round_half_even_def Let_def using lo hi by (auto simp: abs_le_iff)
qed

lemma round_half_even_nonneg: "0 \<le> y \<Longrightarrow> 0 \<le> round_half_even y"
proof -
  assume "0 \<le> y"
  then have "0 \<le> \<lfloor>y\<rfloor>" by simp
  then show ?thesis unfolding round_half_even_def Let_def by auto
qed

lemma hundredths_error: "\<bar>of_nat (hundredths y) - \<bar>y\<bar> * 100\<bar> \<le> (1 / 2 :: rat)"
proof -
  have "0 \<le> round_half_even (\<bar>y\<bar> * 100)" by (rule round_half_even_nonneg) simp
  then have "(of_nat (hundredths y) :: rat) = of_int (round_half_even (\<bar>y\<bar> * 100))"
    by (simp add: hundredths_def)
  with round_half_even_error [of "\<bar>y\<bar> * 100"] show ?thesis by simp
qed

section \<open>Facts about the projection\<close>

lemma cells_keep_rows: "cells (keep_rows sel c) = keep sel (cells c)"
  by (cases c) (simp_all add: keep_def zip_map2 filter_map comp_def split_def)

lemma col_len_cells: "col_len c = length (cells c)"
  by (cases c) simp_all

lemma keep_notnull:
  "length a = length b \<Longrightarrow>
     zip (keep (map P b) a) (keep (map P b) b) = filter (\<lambda>(s, t). P t) (zip a b)"
  by (induction a b rule: list_induct2) (simp_all add: keep_def)

lemma length_keep:
  "length a = length sel \<Longrightarrow> length (keep sel a) = length (filter id sel)"
  by (induction a sel rule: list_induct2) (simp_all add: keep_def)

lemma notna_all:
  "length vs = n \<Longrightarrow>
     map (\<lambda>(v, b). \<not> isnull v \<and> b) (zip vs (replicate n True)) = map (\<lambda>v. \<not> isnull v) vs"
  by (induction vs arbitrary: n) auto

lemma rows_two_columns:
  assumes "length a = n" and "length b = n"
  shows "map (\<lambda>i. [a ! i, b ! i]) [0 ..< n] = map (\<lambda>(s, t). [s, t]) (zip a b)"
  using assms by (auto simp: list_eq_iff_nth_eq)

lemma df_ai_result:
  assumes wf: "wf_frame df"
    and s: "getitem df ''stars'' = Inr cs"
    and t: "getitem df ''text'' = Inr ct"
  shows "df_ai df =
     Inr \<lparr> index_len = length (filter (\<lambda>v. \<not> isnull v) (cells ct)),
           cols = [(''stars'', keep_rows (map (\<lambda>v. \<not> isnull v) (cells ct)) cs),
                   (''text'', keep_rows (map (\<lambda>v. \<not> isnull v) (cells ct)) ct)] \<rparr>"
proof -
  from s have ms: "map_of (cols df) ''stars'' = Some cs"
    by (simp add: getitem_def split: option.splits)
  from t have mt: "map_of (cols df) ''text'' = Some ct"
    by (simp add: getitem_def split: option.splits)
  let ?p = "\<lparr> index_len = index_len df, cols = [(''stars'', cs), (''text'', ct)] \<rparr>"
  have proj: "getitems df [''stars'', ''text''] = Inr ?p"
    by (simp add: getitems_def ms mt)
  have len: "length (cells ct) = index_len df" by (rule getitem_len [OF wf t])
  have "notna_mask ?p [''text''] = Inr (map (\<lambda>(v, b). \<not> isnull v \<and> b)
            (zip (cells ct) (replicate (index_len df) True)))"
    by (simp add: getitem_def)
  with notna_all [OF len] have sel: "notna_mask ?p [''text''] = Inr (map (\<lambda>v. \<not> isnull v) (cells ct))"
    by simp
  have cnt: "length (filter id (map (\<lambda>v. \<not> isnull v) (cells ct)))
             = length (filter (\<lambda>v. \<not> isnull v) (cells ct))"
    by (simp add: filter_map comp_def)
  show ?thesis
    by (simp add: df_ai_def proj dropna_def sel cnt del: notna_mask.simps)
qed

section \<open>Facts about the transfer text\<close>

lemma split_at_first:
  "c \<notin> set a \<Longrightarrow> c \<notin> set a' \<Longrightarrow> a @ c # b = a' @ c # b' \<Longrightarrow> a = a' \<and> b = b'"
proof (induction a arbitrary: a')
  case Nil
  then show ?case by (cases a') auto
next
  case (Cons x a)
  then show ?case by (cases a') auto
qed

lemma set_escape_quotes: "set (escape_quotes s) = set s"
  by (induction s) auto

lemma escape_quotes_cut:
  assumes "escape_quotes s @ dquote # y = escape_quotes s' @ dquote # y'"
    and "y = [] \<or> hd y \<noteq> dquote" and "y' = [] \<or> hd y' \<noteq> dquote"
  shows "s = s' \<and> y = y'"
  using assms
proof (induction s arbitrary: s')
  case Nil
  show ?case
  proof (cases s')
    case Nil
    with Nil.prems show ?thesis by simp
  next
    case (Cons c t)
    with Nil.prems show ?thesis by (cases y) (auto split: if_splits)
  qed
next
  case (Cons c t)
  show ?case
  proof (cases s')
    case Nil
    with Cons.prems show ?thesis by (cases y') (auto split: if_splits)
  next
    case (Cons c' t')
    with Cons.prems have "c = c'" and "escape_quotes t @ dquote # y = escape_quotes t' @ dquote # y'"
      by (auto split: if_splits)
    with Cons.IH [of t'] Cons.prems(2,3) Cons show ?thesis by simp
  qed
qed

lemma un_cons: "c \<noteq> CR \<Longrightarrow> universal_newlines (c # xs) = c # universal_newlines xs"
  by (cases xs) simp_all

lemma un_append: "CR \<notin> set a \<Longrightarrow> universal_newlines (a @ b) = a @ universal_newlines b"
proof (induction a)
  case Nil
  then show ?case by simp
next
  case (Cons c a)
  then have "c \<noteq> CR" and "CR \<notin> set a" by auto
  with Cons.IH show ?case by (simp add: un_cons del: universal_newlines.simps)
qed

lemma un_crlf: "universal_newlines (CR # LF # xs) = LF # universal_newlines xs"
  by simp

lemma un_line:
  "lt = [LF] \<or> lt = [CR, LF] \<Longrightarrow> CR \<notin> set a \<Longrightarrow>
     universal_newlines (a @ lt @ b) = a @ LF # universal_newlines b"
  by (auto simp: un_append un_cons)

lemma needs_quoting_LF: "needs_quoting [LF] s \<longleftrightarrow> \<not> plain s"
  by (induction s) (simp_all add: needs_quoting_def plain_def)

lemma needs_quoting_CRLF: "needs_quoting [CR, LF] s \<longleftrightarrow> \<not> plain s"
proof (induction s)
  case Nil
  show ?case by (simp add: needs_quoting_def plain_def)
next
  case (Cons a s)
  then have "list_ex (\<lambda>c. c = comma \<or> c = dquote \<or> c = CR \<or> c = LF \<or> c \<in> set [CR, LF]) s
             = (\<not> plain s)" by (simp add: needs_quoting_def)
  then show ?case by (simp add: needs_quoting_def plain_def) blast
qed

lemma needs_quoting_plain:
  "lt = [LF] \<or> lt = [CR, LF] \<Longrightarrow> needs_quoting lt s \<longleftrightarrow> \<not> plain s"
  using needs_quoting_LF needs_quoting_CRLF by blast

lemma csv_field_plain: "lt = [LF] \<or> lt = [CR, LF] \<Longrightarrow> plain s \<Longrightarrow> csv_field lt s = s"
  by (simp add: csv_field_def needs_quoting_plain)

lemma csv_field_terminator:
  "lt = [LF] \<or> lt = [CR, LF] \<Longrightarrow> csv_field lt s = csv_field [LF] s"
  by (simp add: csv_field_def needs_quoting_plain)

lemma csv_field_no_cr: "CR \<notin> set s \<Longrightarrow> CR \<notin> set (csv_field lt s)"
  by (simp add: csv_field_def set_escape_quotes)

lemma plain_chars: "plain s \<Longrightarrow> comma \<notin> set s \<and> dquote \<notin> set s \<and> CR \<notin> set s \<and> LF \<notin> set s"
  by (auto simp: plain_def list_all_iff)

lemma unquoted_not_quoted:
  assumes "dquote \<notin> set s" and "s @ LF # r = dquote # x"
  shows False
proof (cases s)
  case Nil
  with assms(2) show False by simp
next
  case (Cons c t)
  with assms(2) have "c = dquote" by simp
  with Cons assms(1) show False by simp
qed

lemma field_cut:
  assumes eq: "csv_field [LF] s @ LF # r = csv_field [LF] s' @ LF # r'"
  shows "s = s' \<and> r = r'"
proof (cases "plain s")
  case True
  note ps = this
  then have fs: "csv_field [LF] s = s" by (simp add: csv_field_def needs_quoting_LF)
  show ?thesis
  proof (cases "plain s'")
    case True
    then have "csv_field [LF] s' = s'" by (simp add: csv_field_def needs_quoting_LF)
    with fs eq have e: "s @ LF # r = s' @ LF # r'" by simp
    from ps have a: "LF \<notin> set s" by (simp add: plain_chars)
    from True have b: "LF \<notin> set s'" by (simp add: plain_chars)
    from a b e show ?thesis by (rule split_at_first)
  next
    case False
    then have "csv_field [LF] s' = dquote # escape_quotes s' @ [dquote]"
      by (simp add: csv_field_def needs_quoting_LF)
    with fs eq have e: "s @ LF # r = dquote # (escape_quotes s' @ dquote # LF # r')" by simp
    from ps have "dquote \<notin> set s" by (simp add: plain_chars)
    from unquoted_not_quoted [OF this e] show ?thesis ..
  qed
next
  case False
  note ns = this
  then have fs: "csv_field [LF] s = dquote # escape_quotes s @ [dquote]"
    by (simp add: csv_field_def needs_quoting_LF)
  show ?thesis
  proof (cases "plain s'")
    case True
    then have "csv_field [LF] s' = s'" by (simp add: csv_field_def needs_quoting_LF)
    with fs eq have e: "s' @ LF # r' = dquote # (escape_quotes s @ dquote # LF # r)" by simp
    from True have "dquote \<notin> set s'" by (simp add: plain_chars)
    from unquoted_not_quoted [OF this e] show ?thesis ..
  next
    case False
    then have "csv_field [LF] s' = dquote # escape_quotes s' @ [dquote]"
      by (simp add: csv_field_def needs_quoting_LF)
    with fs eq have "escape_quotes s @ dquote # (LF # r) = escape_quotes s' @ dquote # (LF # r')"
      by simp
    then have "s = s' \<and> LF # r = LF # r'"
      by (rule escape_quotes_cut) simp_all
    then show ?thesis by simp
  qed
qed

lemma rating_text_cases:
  "rating_text str NaN = [] \<and> rating_text str (Num r) = str (PNum r)"
  by (simp add: rating_text_def cell_text_def)

lemma transfer_line_cut:
  assumes px: "plain (rating_text str x)" and px': "plain (rating_text str x')"
    and inj: "rating_text str x = rating_text str x' \<Longrightarrow> x = x'"
    and eq: "transfer_line str (x, s) @ r = transfer_line str (x', s') @ r'"
  shows "x = x' \<and> s = s' \<and> r = r'"
proof -
  from eq have e: "rating_text str x @ comma # (csv_field [LF] s @ LF # r)
                   = rating_text str x' @ comma # (csv_field [LF] s' @ LF # r')"
    by (simp add: transfer_line_def)
  from px have a: "comma \<notin> set (rating_text str x)" by (simp add: plain_chars)
  from px' have b: "comma \<notin> set (rating_text str x')" by (simp add: plain_chars)
  from split_at_first [OF a b e]
  have t: "rating_text str x = rating_text str x'"
    and f: "csv_field [LF] s @ LF # r = csv_field [LF] s' @ LF # r'" by simp_all
  from inj [OF t] field_cut [OF f] show ?thesis by simp
qed

lemma transfer_line_nonempty: "transfer_line str p @ r \<noteq> []"
  by (simp add: transfer_line_def)

lemma lines_cut:
  assumes "\<forall>p\<in>set ps \<union> set ps'. plain (rating_text str (fst p))"
    and "\<forall>p\<in>set ps. \<forall>p'\<in>set ps'.
           rating_text str (fst p) = rating_text str (fst p') \<longrightarrow> fst p = fst p'"
    and "concat (map (transfer_line str) ps) = concat (map (transfer_line str) ps')"
  shows "ps = ps'"
  using assms
proof (induction ps arbitrary: ps')
  case Nil
  show ?case
  proof (cases ps')
    case Nil
    then show ?thesis by simp
  next
    case (Cons p' qs)
    with Nil.prems(3) have "transfer_line str p' @ concat (map (transfer_line str) qs) = []"
      by simp
    with transfer_line_nonempty show ?thesis by blast
  qed
next
  case (Cons p ps)
  show ?case
  proof (cases ps')
    case Nil
    with Cons.prems(3) have "transfer_line str p @ concat (map (transfer_line str) ps) = []"
      by simp
    with transfer_line_nonempty show ?thesis by blast
  next
    case (Cons p' qs)
    obtain x s where p: "p = (x, s)" by (cases p)
    obtain x' s' where p': "p' = (x', s')" by (cases p')
    from Cons.prems(1) Cons p p' have px: "plain (rating_text str x)"
      and px': "plain (rating_text str x')" by auto
    from Cons.prems(2) Cons p p'
    have inj: "rating_text str x = rating_text str x' \<Longrightarrow> x = x'" by auto
    from Cons.prems(3) Cons p p'
    have eq: "transfer_line str (x, s) @ concat (map (transfer_line str) ps)
              = transfer_line str (x', s') @ concat (map (transfer_line str) qs)" by simp
    from transfer_line_cut [OF px px' inj eq]
    have h: "x = x'" "s = s'"
      and rest: "concat (map (transfer_line str) ps) = concat (map (transfer_line str) qs)"
      by simp_all
    from Cons.prems(1) Cons have c1: "\<forall>p\<in>set ps \<union> set qs. plain (rating_text str (fst p))"
      by auto
    from Cons.prems(2) Cons have c2: "\<forall>p\<in>set ps. \<forall>p'\<in>set qs.
           rating_text str (fst p) = rating_text str (fst p') \<longrightarrow> fst p = fst p'" by auto
    from Cons.IH [OF c1 c2 rest] have "ps = qs" .
    with h p p' Cons show ?thesis by simp
  qed
qed

lemma rows_of_two_columns:
  assumes len: "length xs = length ss"
  shows "rows (two_columns xs ss) = map (\<lambda>p. [number_cell (fst p), PStr (snd p)]) (zip xs ss)"
proof -
  have "rows (two_columns xs ss)
        = map (\<lambda>i. [map number_cell xs ! i, map PStr ss ! i]) [0 ..< length ss]"
    by (simp add: rows_def row_def two_columns_def)
  also have "\<dots> = map (\<lambda>(a, b). [a, b]) (zip (map number_cell xs) (map PStr ss))"
    by (rule rows_two_columns) (simp_all add: len)
  also have "\<dots> = map (\<lambda>p. [number_cell (fst p), PStr (snd p)]) (zip xs ss)"
    by (simp add: zip_map_map split_def)
  finally show ?thesis .
qed

lemma plain_header: "plain ''stars'' \<and> plain ''text''"
  by (simp add: plain_def)

lemma csv_line_pair:
  "csv_line lt [a, b] = csv_field lt a @ comma # csv_field lt b @ lt"
  by (simp add: csv_line_def)

lemma to_csv_two_columns:
  assumes lt: "lt = [LF] \<or> lt = [CR, LF]"
    and str: "\<forall>s. str (PStr s) = s"
    and pl: "\<forall>x\<in>set xs. plain (rating_text str x)"
    and len: "length xs = length ss"
  shows "to_csv str lt (two_columns xs ss) =
     ''stars,text'' @ lt @
     concat (map (\<lambda>p. (rating_text str (fst p) @ comma # csv_field [LF] (snd p)) @ lt) (zip xs ss))"
proof -
  have names: "column_names (two_columns xs ss) = [''stars'', ''text'']"
    by (simp add: column_names_def two_columns_def)
  have head: "csv_line lt [''stars'', ''text''] = ''stars,text'' @ lt"
    using plain_header by (simp add: csv_line_pair csv_field_plain [OF lt])
  have line: "csv_line lt (map (cell_text str) [number_cell (fst p), PStr (snd p)])
              = (rating_text str (fst p) @ comma # csv_field [LF] (snd p)) @ lt"
    if "p \<in> set (zip xs ss)" for p
  proof -
    from that have "fst p \<in> set xs" by (metis in_set_zipE prod.collapse)
    with pl have "plain (rating_text str (fst p))" by blast
    then have a: "csv_field lt (rating_text str (fst p)) = rating_text str (fst p)"
      by (rule csv_field_plain [OF lt])
    have b: "cell_text str (PStr (snd p)) = snd p" using str by (simp add: cell_text_def)
    have c: "csv_field lt (snd p) = csv_field [LF] (snd p)"
      by (rule csv_field_terminator [OF lt])
    show ?thesis
      by (simp add: csv_line_pair rating_text_def [symmetric] a b c)
  qed
  have "concat (map (\<lambda>r. csv_line lt (map (cell_text str) r)) (rows (two_columns xs ss)))
        = concat (map (\<lambda>p. csv_line lt (map (cell_text str) [number_cell (fst p), PStr (snd p)]))
                    (zip xs ss))"
    by (simp add: rows_of_two_columns [OF len] comp_def)
  also have "\<dots> = concat (map (\<lambda>p. (rating_text str (fst p) @ comma # csv_field [LF] (snd p)) @ lt)
                    (zip xs ss))"
    using line by (intro arg_cong [where f = concat] map_cong) simp_all
  finally show ?thesis by (simp add: to_csv_def names head)
qed

lemma un_lines:
  assumes lt: "lt = [LF] \<or> lt = [CR, LF]"
    and cr: "\<forall>p\<in>set ps. CR \<notin> set (f p)"
  shows "universal_newlines (concat (map (\<lambda>p. f p @ lt) ps)) = concat (map (\<lambda>p. f p @ [LF]) ps)"
  using cr
proof (induction ps)
  case Nil
  show ?case by simp
next
  case (Cons p ps)
  then have a: "CR \<notin> set (f p)"
    and ih: "universal_newlines (concat (map (\<lambda>p. f p @ lt) ps)) = concat (map (\<lambda>p. f p @ [LF]) ps)"
    by simp_all
  have "universal_newlines (f p @ lt @ concat (map (\<lambda>p. f p @ lt) ps))
        = f p @ LF # universal_newlines (concat (map (\<lambda>p. f p @ lt) ps))"
    by (rule un_line [OF lt a])
  with ih show ?case by simp
qed

lemma csv_data_two_columns:
  assumes lt: "lt = [LF] \<or> lt = [CR, LF]"
    and str: "\<forall>s. str (PStr s) = s"
    and pl: "\<forall>x\<in>set xs. plain (rating_text str x)"
    and cr: "\<forall>s\<in>set ss. CR \<notin> set s"
    and len: "length xs = length ss"
  shows "csv_data str lt (two_columns xs ss) =
     ''stars,text'' @ LF # concat (map (transfer_line str) (zip xs ss))"
proof -
  let ?f = "\<lambda>p. rating_text str (fst p) @ comma # csv_field [LF] (snd p)"
  have body: "\<forall>p\<in>set (zip xs ss). CR \<notin> set (?f p)"
  proof
    fix p assume p: "p \<in> set (zip xs ss)"
    then have "fst p \<in> set xs" and "snd p \<in> set ss" by (metis in_set_zipE prod.collapse)+
    with pl cr have "plain (rating_text str (fst p))" and "CR \<notin> set (snd p)" by blast+
    then have "CR \<notin> set (rating_text str (fst p))" and "CR \<notin> set (csv_field [LF] (snd p))"
      by (simp_all add: plain_chars csv_field_no_cr)
    then show "CR \<notin> set (?f p)" by simp
  qed
  have h: "CR \<notin> set ''stars,text''" by simp
  have "csv_data str lt (two_columns xs ss)
        = universal_newlines (''stars,text'' @ lt @ concat (map (\<lambda>p. ?f p @ lt) (zip xs ss)))"
    by (simp only: csv_data_def to_csv_two_columns [OF lt str pl len])
  also have "\<dots> = ''stars,text'' @ LF # universal_newlines (concat (map (\<lambda>p. ?f p @ lt) (zip xs ss)))"
    by (rule un_line [OF lt h])
  also have "universal_newlines (concat (map (\<lambda>p. ?f p @ lt) (zip xs ss)))
             = concat (map (\<lambda>p. ?f p @ [LF]) (zip xs ss))"
    by (rule un_lines [OF lt body])
  also have "(\<lambda>p. ?f p @ [LF]) = transfer_line str"
    by (rule ext) (simp add: transfer_line_def)
  finally show ?thesis .
qed

lemma zip_eq_same_length:
  assumes "length xs = length ss" and "length xs' = length ss'" and "zip xs ss = zip xs' ss'"
  shows "xs = xs' \<and> ss = ss'"
proof -
  from assms(1) have "map fst (zip xs ss) = xs" and "map snd (zip xs ss) = ss" by simp_all
  moreover from assms(2) have "map fst (zip xs' ss') = xs'" and "map snd (zip xs' ss') = ss'"
    by simp_all
  ultimately show ?thesis using assms(3) by metis
qed

lemma plain_rating_text:
  assumes "x \<in> set xs"
    and "\<forall>r. Num r \<in> set xs \<longrightarrow> plain (str (PNum r)) \<and> str (PNum r) \<noteq> []"
  shows "plain (rating_text str x)"
proof (cases x)
  case NaN
  then show ?thesis by (simp add: rating_text_cases plain_def)
next
  case (Num r)
  with assms show ?thesis by (simp add: rating_text_cases)
qed

lemma rating_text_inj:
  assumes x: "x \<in> set xs" and x': "x' \<in> set xs'"
    and num: "\<forall>r. Num r \<in> set xs \<union> set xs' \<longrightarrow> plain (str (PNum r)) \<and> str (PNum r) \<noteq> []"
    and inj: "\<forall>r r'. Num r \<in> set xs \<longrightarrow> Num r' \<in> set xs' \<longrightarrow> str (PNum r) = str (PNum r') \<longrightarrow> r = r'"
    and eq: "rating_text str x = rating_text str x'"
  shows "x = x'"
proof (cases x)
  case NaN
  note xn = this
  show ?thesis
  proof (cases x')
    case NaN
    with xn show ?thesis by simp
  next
    case (Num r')
    with x' num have "str (PNum r') \<noteq> []" by blast
    with eq xn Num show ?thesis by (simp add: rating_text_cases)
  qed
next
  case (Num r)
  note xr = this
  show ?thesis
  proof (cases x')
    case NaN
    from x xr num have "str (PNum r) \<noteq> []" by blast
    with eq xr NaN show ?thesis by (simp add: rating_text_cases)
  next
    case (Num r')
    with eq xr have "str (PNum r) = str (PNum r')" by (simp add: rating_text_cases)
    with inj x x' xr Num show ?thesis by blast
  qed
qed

section \<open>The claims\<close>

text \<open>
  Claim C1. For a non-empty list of raw records in which every record has a rating
  (\<^verbatim>\<open>stars\<close>) that converts to a number, \<open>process_reviews_data\<close> returns a table
  with one row per record, every column as long as the index, and every field of every
  record among the column labels. The columns other than \<^verbatim>\<open>stars\<close> and
  \<^verbatim>\<open>review_date\<close> hold the records' own values (nan where a record lacks the
  field); the \<^verbatim>\<open>stars\<close> column holds the converted ratings.
\<close>

theorem build_table_rows_and_fields:
  assumes nonempty: "reviews_data \<noteq> []"
    and ratings: "\<forall>r\<in>set reviews_data. \<exists>v. map_of r ''stars'' = Some v \<and> coercible parse v"
  shows "\<exists>df g' xs. process_reviews_data parse now g reviews_data = Inr (df, g')
      \<and> index_len df = length reviews_data
      \<and> wf_frame df
      \<and> (\<forall>r\<in>set reviews_data. \<forall>k\<in>fst ` set r. k \<in> set (column_names df))
      \<and> (\<forall>k\<in>set (column_names (pd_DataFrame reviews_data)) - {''stars'', ''review_date''}.
            getitem df k = Inr (ObjCol (map (field k) reviews_data)))
      \<and> getitem df ''stars'' = Inr (NumCol xs)
      \<and> length xs = length reviews_data
      \<and> (\<forall>i<length reviews_data. coerce parse i (field ''stars'' (reviews_data ! i)) = Inr (xs ! i))"
proof -
  let ?keys = "\<Union>r\<in>set reviews_data. fst ` set r"
  let ?dates = "DateCol (map (\<lambda>i. now - timedelta_days 730 + timedelta_days (int (g i mod 731)))
                        [0 ..< length reviews_data])"
  from nonempty obtain r0 where r0: "r0 \<in> set reviews_data" by (cases reviews_data) auto
  with ratings obtain v0 where "map_of r0 ''stars'' = Some v0" by blast
  with r0 have col: "''stars'' \<in> ?keys" using key_present by fast
  have "list_all (coercible parse) (map (field ''stars'') reviews_data)"
    using ratings by (auto simp: list_all_iff field_present)
  from to_numeric_from_total [OF this, of 0]
  obtain xs where num: "to_numeric_from parse 0 (map (field ''stars'') reviews_data) = Inr xs" ..
  let ?df = "setitem (setitem (pd_DataFrame reviews_data) ''stars'' (NumCol xs)) ''review_date'' ?dates"
  have run: "process_reviews_data parse now g reviews_data = Inr (?df, \<lambda>k. g (k + length reviews_data))"
    by (rule process_reviews_data_Inr [OF col num])
  from to_numeric_from_Inr [OF num] have len: "length xs = length reviews_data"
    and conv: "\<forall>i<length reviews_data. coerce parse i (field ''stars'' (reviews_data ! i)) = Inr (xs ! i)"
    by auto
  have ilen: "index_len ?df = length reviews_data" by (simp add: pd_DataFrame_def)
  have wf: "wf_frame ?df"
    by (intro wf_frame_setitem wf_frame_DataFrame) (simp_all add: len pd_DataFrame_def)
  have names: "\<forall>r\<in>set reviews_data. \<forall>k\<in>fst ` set r. k \<in> set (column_names ?df)"
    using column_names_DataFrame [of reviews_data]
    by (auto simp: column_names_setitem)
  have others: "\<forall>k\<in>set (column_names (pd_DataFrame reviews_data)) - {''stars'', ''review_date''}.
            getitem ?df k = Inr (ObjCol (map (field k) reviews_data))"
    by (auto simp: getitem_setitem getitem_DataFrame column_names_DataFrame)
  have stars: "getitem ?df ''stars'' = Inr (NumCol xs)"
    by (simp add: getitem_setitem)
  from run ilen wf names others stars len conv show ?thesis by blast
qed

text \<open>The theorem at the two cafe reviews.\<close>

theorem build_table_rows_and_fields_witness:
  "\<exists>df g'. process_reviews_data plain_parser 1700000000000000 sample_rng cafe_reviews = Inr (df, g')
      \<and> index_len df = 2
      \<and> set [''stars'', ''text'', ''title'', ''categoryName'', ''reviewsCount'']
          \<subseteq> set (column_names df)
      \<and> getitem df ''title'' = Inr (ObjCol [PStr ''Cafe X'', PStr ''Cafe X''])"
proof -
  have "cafe_reviews \<noteq> []" by (simp add: cafe_reviews_def)
  moreover have "\<forall>r\<in>set cafe_reviews. \<exists>v. map_of r ''stars'' = Some v \<and> coercible plain_parser v"
    by (simp add: cafe_reviews_def coercible_def)
  ultimately obtain df g' where run: "process_reviews_data plain_parser 1700000000000000 sample_rng cafe_reviews = Inr (df, g')"
    and len: "index_len df = length cafe_reviews"
    and names: "\<forall>r\<in>set cafe_reviews. \<forall>k\<in>fst ` set r. k \<in> set (column_names df)"
    and others: "\<forall>k\<in>set (column_names (pd_DataFrame cafe_reviews)) - {''stars'', ''review_date''}.
            getitem df k = Inr (ObjCol (map (field k) cafe_reviews))"
    using build_table_rows_and_fields [of cafe_reviews plain_parser 1700000000000000 sample_rng]
    by blast
  have "index_len df = 2" using len by (simp add: cafe_reviews_def)
  moreover have "set [''stars'', ''text'', ''title'', ''categoryName'', ''reviewsCount'']
          \<subseteq> set (column_names df)"
    using names by (simp add: cafe_reviews_def)
  moreover have "''title'' \<in> set (column_names (pd_DataFrame cafe_reviews)) - {''stars'', ''review_date''}"
    by (simp add: column_names_DataFrame cafe_reviews_def)
  with others have "getitem df ''title'' = Inr (ObjCol (map (field ''title'') cafe_reviews))"
    by blast
  then have "getitem df ''title'' = Inr (ObjCol [PStr ''Cafe X'', PStr ''Cafe X''])"
    by (simp add: cafe_reviews_def field_def)
  ultimately show ?thesis using run by blast
qed

text \<open>
  Claim C2. If the rating of some record does not convert to a number,
  \<open>process_reviews_data\<close> raises instead of returning a table: the exception of
  \<^verbatim>\<open>pd.to_numeric\<close> (\<^verbatim>\<open>ValueError\<close> for an unparsable string, \<^verbatim>\<open>TypeError\<close>
  for an invalid object), carrying the position \<open>j\<close> of the first record whose rating does
  not convert. The result is the exception alone, so no part of the table is returned.
\<close>

theorem build_table_rejects_non_numeric_rating:
  assumes i: "i < length reviews_data"
    and v: "map_of (reviews_data ! i) ''stars'' = Some v"
    and bad: "\<not> coercible parse v"
  shows "\<exists>j\<le>i.
      (process_reviews_data parse now g reviews_data = Inl (ValueErrorAt j)
       \<or> process_reviews_data parse now g reviews_data = Inl (TypeErrorAt j))
      \<and> \<not> coercible parse (field ''stars'' (reviews_data ! j))
      \<and> (\<forall>k<j. coercible parse (field ''stars'' (reviews_data ! k)))"
proof -
  let ?cells = "map (field ''stars'') reviews_data"
  from i v have col: "''stars'' \<in> (\<Union>r\<in>set reviews_data. fst ` set r)"
    using key_present nth_mem by fast
  from i v bad have "\<not> coercible parse (?cells ! i)" by (simp add: field_present)
  with i have "\<not> list_all (coercible parse) ?cells"
    by (auto simp: list_all_length)
  from to_numeric_from_raises [OF this, of 0]
  obtain j where j: "j < length reviews_data"
    and err: "to_numeric_from parse 0 ?cells = Inl (ValueErrorAt j)
              \<or> to_numeric_from parse 0 ?cells = Inl (TypeErrorAt j)"
    and jbad: "\<not> coercible parse (?cells ! j)"
    and first: "\<forall>k<j. coercible parse (?cells ! k)" by auto
  have "j \<le> i"
  proof (rule ccontr)
    assume "\<not> j \<le> i"
    then have "i < j" by simp
    with first have "coercible parse (?cells ! i)" by blast
    with i v bad show False by (simp add: field_present)
  qed
  moreover from err col have "process_reviews_data parse now g reviews_data = Inl (ValueErrorAt j)
       \<or> process_reviews_data parse now g reviews_data = Inl (TypeErrorAt j)"
    using process_reviews_data_Inl_num by blast
  moreover from jbad j have "\<not> coercible parse (field ''stars'' (reviews_data ! j))" by simp
  moreover from first j have "\<forall>k<j. coercible parse (field ''stars'' (reviews_data ! k))" by simp
  ultimately show ?thesis by blast
qed

text \<open>The theorem at three records whose second rating is the string \<^verbatim>\<open>N/A\<close>.\<close>

theorem build_table_rejects_non_numeric_rating_witness:
  "plain_parser ''N/A'' = None
   \<and> process_reviews_data plain_parser 1700000000000000 sample_rng
        [[(''stars'', PStr ''5'')], [(''stars'', PStr ''N/A'')], [(''stars'', PStr ''4'')]]
      = Inl (ValueErrorAt 1)"
proof -
  let ?rs = "[[(''stars'', PStr ''5'')], [(''stars'', PStr ''N/A'')], [(''stars'', PStr ''4'')]]"
  have na: "plain_parser ''N/A'' = None" by (simp add: plain_parser_def)
  have five: "coercible plain_parser (PStr ''5'')" by (simp add: coercible_def plain_parser_def)
  have bad: "\<not> coercible plain_parser (PStr ''N/A'')" by (simp add: coercible_def na)
  have "(1::nat) < length ?rs" by simp
  moreover have "map_of (?rs ! 1) ''stars'' = Some (PStr ''N/A'')" by simp
  ultimately obtain j where j: "j \<le> 1"
    and err: "process_reviews_data plain_parser 1700000000000000 sample_rng ?rs = Inl (ValueErrorAt j)
       \<or> process_reviews_data plain_parser 1700000000000000 sample_rng ?rs = Inl (TypeErrorAt j)"
    and jbad: "\<not> coercible plain_parser (field ''stars'' (?rs ! j))"
    using build_table_rejects_non_numeric_rating [of 1 ?rs "PStr ''N/A''" plain_parser 1700000000000000 sample_rng] bad
    by blast
  have "j = 1"
  proof (rule ccontr)
    assume "j \<noteq> 1"
    with j have "j = 0" by simp
    with jbad five show False by (simp add: field_def)
  qed
  moreover have "coerce plain_parser 1 (PStr ''N/A'') \<noteq> Inl (TypeErrorAt 1)" by (simp add: na)
  have "process_reviews_data plain_parser 1700000000000000 sample_rng ?rs \<noteq> Inl (TypeErrorAt 1)"
    by (simp add: process_reviews_data_def pd_DataFrame_def getitem_def field_def na
        plain_parser_def Let_def)
  ultimately show ?thesis using err na by blast
qed

text \<open>
  Claim C3, as the code has it. For the empty list of records \<^verbatim>\<open>pd.DataFrame([])\<close>
  has no columns, so the lookup \<^verbatim>\<open>df['stars']\<close> of line 49 raises \<^verbatim>\<open>KeyError\<close>:
  \<open>process_reviews_data\<close> returns no table, for any parser, clock and generator. The
  summary block on that column-less frame raises \<^verbatim>\<open>KeyError\<close> at its first lookup.
\<close>

theorem build_table_empty_input_raises:
  "process_reviews_data parse now g [] = Inl (KeyError ''stars'')
   \<and> summary fsum (pd_DataFrame []) = Inl (KeyError ''title'')"
  by (simp add: process_reviews_data_def pd_DataFrame_def getitem_def summary_def)

text \<open>
  The claim as the specification states it asks for an empty table on the empty input;
  the call raises.
\<close>

theorem build_table_empty_input_counterexample:
  "process_reviews_data plain_parser 1700000000000000 sample_rng [] = Inl (KeyError ''stars'')"
  by (simp add: process_reviews_data_def pd_DataFrame_def getitem_def)

text \<open>
  Claim C5. Every \<^verbatim>\<open>review_date\<close> that \<open>process_reviews_data\<close> assigns lies in
  the closed range from \<open>now\<close> minus 730 days to \<open>now\<close>, where \<open>now\<close> is the clock
  value read at the call, for every row, every clock value and every state of the
  generator. Row \<open>i\<close> gets the offset of its own \<open>randint(0, 730)\<close> draw, the \<open>i\<close>-th
  after the state the call started in, and the call leaves the generator advanced by
  one draw per row: no row's date depends on another row's draw. The offset is the
  number the generator delivers, modulo 731, so the 731 offsets are hit alike by a
  generator that delivers its numbers alike. (The probability law of the generator
  itself is the library's and is not part of the model.)
\<close>

theorem review_dates_within_two_years:
  assumes run: "process_reviews_data parse now g reviews_data = Inr (df, g')"
  shows "\<exists>dates. getitem df ''review_date'' = Inr (DateCol dates)
      \<and> length dates = index_len df
      \<and> (\<forall>i<length dates.
            now - timedelta_days 730 \<le> dates ! i \<and> dates ! i \<le> now
            \<and> dates ! i = now - timedelta_days 730 + timedelta_days (fst (randint 0 730 (\<lambda>k. g (k + i))))
            \<and> fst (randint 0 730 (\<lambda>k. g (k + i))) = int (g i mod 731))
      \<and> g' = (\<lambda>k. g (k + index_len df))"
proof -
  define dates where "dates = map (\<lambda>i. now - timedelta_days 730 + timedelta_days (int (g i mod 731)))
                  [0 ..< length reviews_data]"
  from run obtain xs where date: "getitem df ''review_date'' = Inr (DateCol dates)"
    and len: "index_len df = length reviews_data"
    and g': "g' = (\<lambda>k. g (k + length reviews_data))"
    unfolding dates_def by (rule process_reviews_data_table)
  have dlen: "length dates = index_len df" by (simp add: dates_def len)
  have each: "\<forall>i<length dates.
            now - timedelta_days 730 \<le> dates ! i \<and> dates ! i \<le> now
            \<and> dates ! i = now - timedelta_days 730 + timedelta_days (fst (randint 0 730 (\<lambda>k. g (k + i))))
            \<and> fst (randint 0 730 (\<lambda>k. g (k + i))) = int (g i mod 731)"
  proof (intro allI impI)
    fix i assume "i < length dates"
    then have i: "i < length reviews_data" by (simp add: dates_def)
    have nth: "dates ! i = now - timedelta_days 730 + timedelta_days (int (g i mod 731))"
      using i by (simp add: dates_def)
    have r: "fst (randint 0 730 (\<lambda>k. g (k + i))) = int (g i mod 731)"
      by (rule randint_shift)
    from offset_bounds [of "g i"] nth
    have "now - timedelta_days 730 \<le> dates ! i" and "dates ! i \<le> now" by linarith+
    with nth r show "now - timedelta_days 730 \<le> dates ! i \<and> dates ! i \<le> now
            \<and> dates ! i = now - timedelta_days 730 + timedelta_days (fst (randint 0 730 (\<lambda>k. g (k + i))))
            \<and> fst (randint 0 730 (\<lambda>k. g (k + i))) = int (g i mod 731)"
      by simp
  qed
  have g'': "g' = (\<lambda>k. g (k + index_len df))" using g' len by simp
  from date dlen each g'' show ?thesis by blast
qed

text \<open>The theorem at the table of the two cafe reviews.\<close>

theorem review_dates_within_two_years_witness:
  "getitem cafe_table ''review_date'' = Inr (DateCol [1638396800000000, 1661638400000000])
   \<and> 1700000000000000 - timedelta_days 730 \<le> (1638396800000000 :: int)
   \<and> (1638396800000000 :: int) \<le> 1700000000000000
   \<and> 1700000000000000 - timedelta_days 730 \<le> (1661638400000000 :: int)
   \<and> (1661638400000000 :: int) \<le> 1700000000000000"
proof -
  from review_dates_within_two_years [OF cafe_run]
  obtain dates where d: "getitem cafe_table ''review_date'' = Inr (DateCol dates)"
    and each: "\<forall>i<length dates.
            1700000000000000 - timedelta_days 730 \<le> dates ! i \<and> dates ! i \<le> 1700000000000000"
    by blast
  have lit: "getitem cafe_table ''review_date'' = Inr (DateCol [1638396800000000, 1661638400000000])"
    by (simp add: getitem_def cafe_table_def)
  with d have dates: "dates = [1638396800000000, 1661638400000000]" by simp
  have "0 < length dates" and "1 < length dates" using dates by simp_all
  with each have "1700000000000000 - timedelta_days 730 \<le> dates ! 0 \<and> dates ! 0 \<le> 1700000000000000"
    and "1700000000000000 - timedelta_days 730 \<le> dates ! 1 \<and> dates ! 1 \<le> 1700000000000000"
    by blast+
  with dates lit show ?thesis by simp
qed

text \<open>
  Claim C6, as the code has it. For every table \<open>process_reviews_data\<close> returns (it
  has at least one row), the rating histogram of \<open>create_graphs\<close> has one entry per
  rating value that occurs in the \<^verbatim>\<open>stars\<close> column, with the number of rows of that
  exact value, in strictly ascending order of the value; a value that does not occur has
  no entry. \<^verbatim>\<open>value_counts\<close> drops nan, so the counts sum to the number of rows
  whose rating is not nan: to the row count when no rating is missing.
\<close>

theorem rating_histogram_counts:
  assumes run: "process_reviews_data parse now g reviews_data = Inr (df, g')"
  shows "\<exists>xs h. getitem df ''stars'' = Inr (NumCol xs)
      \<and> length xs = index_len df
      \<and> rating_histogram df = Inr h
      \<and> sorted_wrt (<) (map fst h)
      \<and> (\<forall>v c. (v, c) \<in> set h \<longleftrightarrow> Num v \<in> set xs \<and> c = count_list xs (Num v))
      \<and> sum_list (map snd h) = length (filter (\<lambda>x. x \<noteq> NaN) xs)
      \<and> (NaN \<notin> set xs \<longrightarrow> sum_list (map snd h) = index_len df)"
proof -
  from run obtain xs where stars: "getitem df ''stars'' = Inr (NumCol xs)"
    and date: "getitem df ''review_date'' =
           Inr (DateCol (map (\<lambda>i. now - timedelta_days 730 + timedelta_days (int (g i mod 731)))
                          [0 ..< length reviews_data]))"
    and len: "length xs = length reviews_data"
    and ilen: "index_len df = length reviews_data"
    by (rule process_reviews_data_table)
  let ?h = "value_counts_sort_index xs"
  have h: "rating_histogram df = Inr ?h"
    by (rule rating_histogram_numeric [OF stars date])
  have l: "length xs = index_len df" using len ilen by simp
  have s: "sorted_wrt (<) (map fst ?h)" by (rule value_counts_sorted)
  have p: "\<forall>v c. (v, c) \<in> set ?h \<longleftrightarrow> Num v \<in> set xs \<and> c = count_list xs (Num v)"
    by (simp add: value_counts_present)
  have t: "sum_list (map snd ?h) = length (filter (\<lambda>x. x \<noteq> NaN) xs)"
    by (rule value_counts_total)
  have n: "NaN \<notin> set xs \<longrightarrow> sum_list (map snd ?h) = index_len df"
    using t l by (simp add: filter_no_nan)
  from stars l h s p t n show ?thesis by blast
qed

text \<open>The theorem at the table of the two cafe reviews.\<close>

theorem rating_histogram_counts_witness:
  "rating_histogram cafe_table = Inr [(3, 1), (5, 1)]
   \<and> sum_list (map snd [(3 :: rat, 1 :: nat), (5, 1)]) = index_len cafe_table"
proof -
  from rating_histogram_counts [OF cafe_run]
  obtain xs h where "getitem cafe_table ''stars'' = Inr (NumCol xs)"
    and h: "rating_histogram cafe_table = Inr h"
    and n: "NaN \<notin> set xs \<longrightarrow> sum_list (map snd h) = index_len cafe_table"
    by blast
  moreover have "getitem cafe_table ''stars'' = Inr (NumCol [Num 5, Num 3])"
    by (simp add: getitem_def cafe_table_def)
  ultimately have xs: "xs = [Num 5, Num 3]" by simp
  have lit: "rating_histogram cafe_table = Inr [(3, 1), (5, 1)]" by code_simp
  with h have "h = [(3, 1), (5, 1)]" by simp
  with n xs lit show ?thesis by simp
qed

text \<open>
  Two records, the second with a null rating: the table has two rows and the counts of
  the histogram sum to one.
\<close>

theorem rating_histogram_counts_counterexample:
  "map_sum id fst (process_reviews_data plain_parser 1700000000000000 sample_rng gap_reviews)
     = Inr gap_table
   \<and> index_len gap_table = 2
   \<and> rating_histogram gap_table = Inr [(5, 1)]"
proof -
  have "rating_histogram gap_table = Inr [(5, 1)]" by code_simp
  moreover have "index_len gap_table = 2" by (simp add: gap_table_def)
  ultimately show ?thesis by (simp add: gap_run)
qed

text \<open>
  Claim C7. For every table \<open>process_reviews_data\<close> returns (it has at least one
  row), the monthly counts of \<open>create_graphs\<close> give each bucket the number of rows whose
  \<^verbatim>\<open>review_date\<close> falls in that calendar month, every row's month has a bucket, the
  counts sum to the row count, and the month keys are strictly increasing, hence
  without duplicates.
\<close>

theorem monthly_counts_buckets:
  assumes run: "process_reviews_data parse now g reviews_data = Inr (df, g')"
  shows "\<exists>ts b. getitem df ''review_date'' = Inr (DateCol ts)
      \<and> length ts = index_len df
      \<and> 0 < index_len df
      \<and> monthly_counts df = Inr b
      \<and> (\<forall>m c. (m, c) \<in> set b \<longrightarrow> c = length (filter (\<lambda>t. month_index t = m) ts))
      \<and> (\<forall>t\<in>set ts. month_index t \<in> fst ` set b)
      \<and> sum_list (map snd b) = index_len df
      \<and> sorted_wrt (<) (map fst b)
      \<and> distinct (map fst b)"
proof -
  define ts where "ts = map (\<lambda>i. now - timedelta_days 730 + timedelta_days (int (g i mod 731)))
                          [0 ..< length reviews_data]"
  from run obtain xs where stars: "getitem df ''stars'' = Inr (NumCol xs)"
    and date: "getitem df ''review_date'' = Inr (DateCol ts)"
    and ilen: "index_len df = length reviews_data"
    and ne: "reviews_data \<noteq> []"
    unfolding ts_def by (rule process_reviews_data_table)
  let ?b = "resample_M_size ts"
  have l: "length ts = index_len df" by (simp add: ts_def ilen)
  have pos: "0 < index_len df" using ne ilen by simp
  have b: "monthly_counts df = Inr ?b" by (rule monthly_counts_numeric [OF stars date])
  have c: "\<forall>m c. (m, c) \<in> set ?b \<longrightarrow> c = length (filter (\<lambda>t. month_index t = m) ts)"
    using resample_bucket by blast
  have v: "\<forall>t\<in>set ts. month_index t \<in> fst ` set ?b"
    using resample_covers by blast
  have t: "sum_list (map snd ?b) = index_len df" using resample_total [of ts] l by simp
  have s: "sorted_wrt (<) (map fst ?b)" by (rule resample_keys_sorted)
  then have d: "distinct (map fst ?b)" by (simp add: strict_sorted_iff)
  from date l pos b c v t s d show ?thesis by blast
qed

text \<open>The theorem at the table of the two cafe reviews.\<close>

theorem monthly_counts_buckets_witness:
  "monthly_counts cafe_table =
     Inr [(24263, 1), (24264, 0), (24265, 0), (24266, 0), (24267, 0),
          (24268, 0), (24269, 0), (24270, 0), (24271, 1)]
   \<and> month_index 1638396800000000 = 24263
   \<and> month_index 1661638400000000 = 24271
   \<and> index_len cafe_table = 2"
proof -
  from monthly_counts_buckets [OF cafe_run]
  obtain b where b: "monthly_counts cafe_table = Inr b"
    and t: "sum_list (map snd b) = index_len cafe_table"
    by blast
  have lit: "monthly_counts cafe_table =
     Inr [(24263, 1), (24264, 0), (24265, 0), (24266, 0), (24267, 0),
          (24268, 0), (24269, 0), (24270, 0), (24271, 1)]" by code_simp
  with b have "b = [(24263, 1), (24264, 0), (24265, 0), (24266, 0), (24267, 0),
          (24268, 0), (24269, 0), (24270, 0), (24271, 1)]" by simp
  with t have "index_len cafe_table = 2" by simp
  moreover have "month_index 1638396800000000 = 24263" by code_simp
  moreover have "month_index 1661638400000000 = 24271" by code_simp
  ultimately show ?thesis using lit by simp
qed

text \<open>
  Claim C10, as the code has it. A rating that is null or absent converts (to nan).
  When at least one record carries a \<^verbatim>\<open>stars\<close> key, the call has exactly two
  outcomes. If every rating converts, null and absent ones included, it returns a
  table with a row for every record, in which the rating of a record with a null or
  absent rating is nan, and the rating histogram passes over the nan cells: its counts
  sum to the number of cells that are not nan. Otherwise it raises with the position
  of a rating that is not null: a null or absent rating never is the cell that makes
  \<^verbatim>\<open>pd.to_numeric\<close> raise.
\<close>

theorem null_rating_kept_as_nan:
  assumes key: "''stars'' \<in> (\<Union>r\<in>set reviews_data. fst ` set r)"
  shows "(\<forall>v. isnull v \<longrightarrow> coercible parse v)
   \<and> ((\<forall>r\<in>set reviews_data. coercible parse (field ''stars'' r)) \<longrightarrow>
        (\<exists>df g' xs. process_reviews_data parse now g reviews_data = Inr (df, g')
            \<and> getitem df ''stars'' = Inr (NumCol xs)
            \<and> index_len df = length reviews_data
            \<and> length xs = length reviews_data
            \<and> (\<forall>i<length reviews_data.
                  isnull (field ''stars'' (reviews_data ! i)) \<longrightarrow> xs ! i = NaN)
            \<and> rating_histogram df = Inr (value_counts_sort_index xs)
            \<and> sum_list (map snd (value_counts_sort_index xs))
                = length (filter (\<lambda>x. x \<noteq> NaN) xs)))
   \<and> (\<not> (\<forall>r\<in>set reviews_data. coercible parse (field ''stars'' r)) \<longrightarrow>
        (\<exists>j<length reviews_data.
            (process_reviews_data parse now g reviews_data = Inl (ValueErrorAt j)
             \<or> process_reviews_data parse now g reviews_data = Inl (TypeErrorAt j))
            \<and> \<not> isnull (field ''stars'' (reviews_data ! j))))"
proof (intro conjI allI impI)
  fix v assume "isnull v"
  then show "coercible parse v" by (rule isnull_coercible)
next
  assume all: "\<forall>r\<in>set reviews_data. coercible parse (field ''stars'' r)"
  then have "list_all (coercible parse) (map (field ''stars'') reviews_data)"
    by (simp add: list_all_iff)
  from to_numeric_from_total [OF this, of 0]
  obtain ys where num: "to_numeric_from parse 0 (map (field ''stars'') reviews_data) = Inr ys" ..
  from process_reviews_data_Inr [OF key num, of now g]
  obtain df g' where run: "process_reviews_data parse now g reviews_data = Inr (df, g')" by blast
  then obtain xs where stars: "getitem df ''stars'' = Inr (NumCol xs)"
    and date: "getitem df ''review_date'' =
           Inr (DateCol (map (\<lambda>i. now - timedelta_days 730 + timedelta_days (int (g i mod 731)))
                          [0 ..< length reviews_data]))"
    and len: "length xs = length reviews_data"
    and ilen: "index_len df = length reviews_data"
    and conv: "\<forall>i<length reviews_data. coerce parse i (field ''stars'' (reviews_data ! i)) = Inr (xs ! i)"
    by (rule process_reviews_data_table)
  have nan: "\<forall>i<length reviews_data. isnull (field ''stars'' (reviews_data ! i)) \<longrightarrow> xs ! i = NaN"
  proof (intro allI impI)
    fix i assume i: "i < length reviews_data" and n: "isnull (field ''stars'' (reviews_data ! i))"
    from conv i have "coerce parse i (field ''stars'' (reviews_data ! i)) = Inr (xs ! i)" by blast
    with isnull_coerce [OF n, of parse i] show "xs ! i = NaN" by simp
  qed
  have h: "rating_histogram df = Inr (value_counts_sort_index xs)"
    by (rule rating_histogram_numeric [OF stars date])
  have t: "sum_list (map snd (value_counts_sort_index xs)) = length (filter (\<lambda>x. x \<noteq> NaN) xs)"
    by (rule value_counts_total)
  from run stars ilen len nan h t
  show "\<exists>df g' xs. process_reviews_data parse now g reviews_data = Inr (df, g')
            \<and> getitem df ''stars'' = Inr (NumCol xs)
            \<and> index_len df = length reviews_data
            \<and> length xs = length reviews_data
            \<and> (\<forall>i<length reviews_data.
                  isnull (field ''stars'' (reviews_data ! i)) \<longrightarrow> xs ! i = NaN)
            \<and> rating_histogram df = Inr (value_counts_sort_index xs)
            \<and> sum_list (map snd (value_counts_sort_index xs))
                = length (filter (\<lambda>x. x \<noteq> NaN) xs)"
    by blast
next
  assume "\<not> (\<forall>r\<in>set reviews_data. coercible parse (field ''stars'' r))"
  then have "\<not> list_all (coercible parse) (map (field ''stars'') reviews_data)"
    by (simp add: list_all_iff)
  from to_numeric_from_raises [OF this, of 0]
  obtain j where j: "j < length reviews_data"
    and err: "to_numeric_from parse 0 (map (field ''stars'') reviews_data) = Inl (ValueErrorAt j)
              \<or> to_numeric_from parse 0 (map (field ''stars'') reviews_data) = Inl (TypeErrorAt j)"
    and bad: "\<not> coercible parse (map (field ''stars'') reviews_data ! j)"
    by auto
  from err key have e: "process_reviews_data parse now g reviews_data = Inl (ValueErrorAt j)
       \<or> process_reviews_data parse now g reviews_data = Inl (TypeErrorAt j)"
    using process_reviews_data_Inl_num by blast
  from bad j have "\<not> coercible parse (field ''stars'' (reviews_data ! j))" by simp
  then have "\<not> isnull (field ''stars'' (reviews_data ! j))"
    using isnull_coercible by blast
  with j e show "\<exists>j<length reviews_data.
            (process_reviews_data parse now g reviews_data = Inl (ValueErrorAt j)
             \<or> process_reviews_data parse now g reviews_data = Inl (TypeErrorAt j))
            \<and> \<not> isnull (field ''stars'' (reviews_data ! j))"
    by blast
qed

text \<open>
  The theorem at a rated record followed by a record without a rating, at a null
  rating, and at a null rating followed by the string \<^verbatim>\<open>N/A\<close>.
\<close>

theorem null_rating_kept_as_nan_witness:
  "(\<exists>df g'. process_reviews_data plain_parser 1700000000000000 sample_rng
               [[(''stars'', PNum 5)], [(''text'', PStr ''ok'')]] = Inr (df, g')
        \<and> index_len df = 2
        \<and> getitem df ''stars'' = Inr (NumCol [Num 5, NaN])
        \<and> rating_histogram df = Inr [(5, 1)])
   \<and> map_sum id fst (process_reviews_data plain_parser 1700000000000000 sample_rng gap_reviews)
       = Inr gap_table
   \<and> getitem gap_table ''stars'' = Inr (NumCol [Num 5, NaN])
   \<and> process_reviews_data plain_parser 1700000000000000 sample_rng
        [[(''stars'', PNone)], [(''stars'', PStr ''N/A'')]] = Inl (ValueErrorAt 1)"
proof -
  let ?a = "[[(''stars'', PNum 5)], [(''text'', PStr ''ok'')]] :: raw_review list"
  let ?b = "[[(''stars'', PNone)], [(''stars'', PStr ''N/A'')]] :: raw_review list"
  \<comment> \<open>a record without a rating beside a rated one\<close>
  have ka: "''stars'' \<in> (\<Union>r\<in>set ?a. fst ` set r)" by simp
  have ca: "\<forall>r\<in>set ?a. coercible plain_parser (field ''stars'' r)"
    by (simp add: coercible_def field_def)
  from null_rating_kept_as_nan [OF ka, of plain_parser 1700000000000000 sample_rng] ca
  obtain df g' xs where run: "process_reviews_data plain_parser 1700000000000000 sample_rng ?a = Inr (df, g')"
    and s: "getitem df ''stars'' = Inr (NumCol xs)"
    and il: "index_len df = length ?a"
    and lx: "length xs = length ?a"
    and nan: "\<forall>i<length ?a. isnull (field ''stars'' (?a ! i)) \<longrightarrow> xs ! i = NaN"
    and h: "rating_histogram df = Inr (value_counts_sort_index xs)"
    by blast
  have n1: "isnull (field ''stars'' (?a ! 1))" by (simp add: field_def)
  with nan have x1: "xs ! 1 = NaN" by simp
  from run have "to_numeric_from plain_parser 0 (map (field ''stars'') ?a) = Inr xs"
    using s by (auto elim!: process_reviews_data_InrD simp: getitem_setitem)
  then have xs: "xs = [Num 5, NaN]" by (simp add: field_def)
  have "value_counts_sort_index [Num 5, NaN] = [(5, 1)]" by code_simp
  with h xs have h': "rating_histogram df = Inr [(5, 1)]" by simp
  from run il s xs h' have first: "\<exists>df g'. process_reviews_data plain_parser 1700000000000000 sample_rng ?a
               = Inr (df, g')
        \<and> index_len df = 2
        \<and> getitem df ''stars'' = Inr (NumCol [Num 5, NaN])
        \<and> rating_histogram df = Inr [(5, 1)]" by auto
  \<comment> \<open>a null rating\<close>
  have second: "map_sum id fst (process_reviews_data plain_parser 1700000000000000 sample_rng gap_reviews)
       = Inr gap_table" by (simp add: gap_run)
  have third: "getitem gap_table ''stars'' = Inr (NumCol [Num 5, NaN])"
    by (simp add: getitem_def gap_table_def)
  \<comment> \<open>a null rating before a string that is no number\<close>
  have kb: "''stars'' \<in> (\<Union>r\<in>set ?b. fst ` set r)" by simp
  have cb: "\<not> (\<forall>r\<in>set ?b. coercible plain_parser (field ''stars'' r))"
    by (simp add: coercible_def field_def plain_parser_def)
  from null_rating_kept_as_nan [OF kb, of plain_parser 1700000000000000 sample_rng] cb
  obtain j where j: "j < length ?b"
    and e: "process_reviews_data plain_parser 1700000000000000 sample_rng ?b = Inl (ValueErrorAt j)
             \<or> process_reviews_data plain_parser 1700000000000000 sample_rng ?b = Inl (TypeErrorAt j)"
    and nn: "\<not> isnull (field ''stars'' (?b ! j))"
    by blast
  have "j = 1"
  proof (rule ccontr)
    assume "j \<noteq> 1"
    with j have "j = 0" by simp
    with nn show False by (simp add: field_def)
  qed
  moreover have "process_reviews_data plain_parser 1700000000000000 sample_rng ?b \<noteq> Inl (TypeErrorAt 1)"
    by (simp add: process_reviews_data_def pd_DataFrame_def getitem_def field_def
        plain_parser_def Let_def)
  ultimately have fourth: "process_reviews_data plain_parser 1700000000000000 sample_rng ?b
      = Inl (ValueErrorAt 1)" using e by blast
  from first second third fourth show ?thesis by blast
qed

text \<open>
  When no record carries a \<^verbatim>\<open>stars\<close> key the table has no such column, and the
  lookup of line 49 raises: a record whose rating is absent makes the call fail then.
\<close>

theorem null_rating_without_column_counterexample:
  "isnull (field ''stars'' [(''text'', PStr ''ok'')])
   \<and> process_reviews_data plain_parser 1700000000000000 sample_rng [[(''text'', PStr ''ok'')]]
       = Inl (KeyError ''stars'')"
  by (simp add: field_def process_reviews_data_def pd_DataFrame_def getitem_def)

text \<open>
  Claim C8. For a table with a \<^verbatim>\<open>stars\<close> and a \<^verbatim>\<open>text\<close> column, the projection of
  line 144 has exactly the two columns \<^verbatim>\<open>stars\<close> and \<^verbatim>\<open>text\<close>, in this order, and
  its rows are the (rating, text) pairs of the table's rows whose text is not null, in
  the table's order.
\<close>

theorem insight_projection:
  assumes wf: "wf_frame df"
    and s: "getitem df ''stars'' = Inr cs"
    and t: "getitem df ''text'' = Inr ct"
  shows "\<exists>d. df_ai df = Inr d
      \<and> column_names d = [''stars'', ''text'']
      \<and> wf_frame d
      \<and> rows d = map (\<lambda>(s, t). [s, t])
                    (filter (\<lambda>(s, t). \<not> isnull t) (zip (cells cs) (cells ct)))"
proof -
  let ?sel = "map (\<lambda>v. \<not> isnull v) (cells ct)"
  let ?d = "\<lparr> index_len = length (filter (\<lambda>v. \<not> isnull v) (cells ct)),
           cols = [(''stars'', keep_rows ?sel cs), (''text'', keep_rows ?sel ct)] \<rparr>"
  have res: "df_ai df = Inr ?d" by (rule df_ai_result [OF wf s t])
  have ls: "length (cells cs) = index_len df" by (rule getitem_len [OF wf s])
  have lt: "length (cells ct) = index_len df" by (rule getitem_len [OF wf t])
  have cnt: "length (filter id ?sel) = length (filter (\<lambda>v. \<not> isnull v) (cells ct))"
    by (simp add: filter_map comp_def)
  have ks: "length (keep ?sel (cells cs)) = length (filter (\<lambda>v. \<not> isnull v) (cells ct))"
    using length_keep [of "cells cs" ?sel] ls lt cnt by simp
  have kt: "length (keep ?sel (cells ct)) = length (filter (\<lambda>v. \<not> isnull v) (cells ct))"
    using length_keep [of "cells ct" ?sel] cnt by simp
  have names: "column_names ?d = [''stars'', ''text'']" by (simp add: column_names_def)
  have wfd: "wf_frame ?d"
    by (simp add: wf_frame_def col_len_cells cells_keep_rows ks kt)
  have "rows ?d = map (\<lambda>i. [keep ?sel (cells cs) ! i, keep ?sel (cells ct) ! i])
                    [0 ..< length (filter (\<lambda>v. \<not> isnull v) (cells ct))]"
    by (simp add: rows_def row_def cells_keep_rows)
  also have "\<dots> = map (\<lambda>(s, t). [s, t]) (zip (keep ?sel (cells cs)) (keep ?sel (cells ct)))"
    by (rule rows_two_columns [OF ks kt])
  also have "zip (keep ?sel (cells cs)) (keep ?sel (cells ct))
             = filter (\<lambda>(s, t). \<not> isnull t) (zip (cells cs) (cells ct))"
    using keep_notnull [of "cells cs" "cells ct" "\<lambda>v. \<not> isnull v"] ls lt by simp
  finally have rws: "rows ?d = map (\<lambda>(s, t). [s, t])
                    (filter (\<lambda>(s, t). \<not> isnull t) (zip (cells cs) (cells ct)))" .
  from res names wfd rws show ?thesis by blast
qed

text \<open>
  The theorem at the table of the two cafe reviews, the second without text: the
  projection has exactly one row.
\<close>

theorem insight_projection_witness:
  "df_ai cafe_table =
     Inr \<lparr> index_len = 1,
           cols = [(''stars'', NumCol [Num 5]), (''text'', ObjCol [PStr ''Great''])] \<rparr>
   \<and> rows \<lparr> index_len = 1,
           cols = [(''stars'', NumCol [Num 5]), (''text'', ObjCol [PStr ''Great''])] \<rparr>
       = [[PNum 5, PStr ''Great'']]"
proof -
  let ?d = "\<lparr> index_len = 1,
           cols = [(''stars'', NumCol [Num 5]), (''text'', ObjCol [PStr ''Great''])] \<rparr>"
  have wf: "wf_frame cafe_table" by (simp add: wf_frame_def cafe_table_def)
  have s: "getitem cafe_table ''stars'' = Inr (NumCol [Num 5, Num 3])"
    by (simp add: getitem_def cafe_table_def)
  have t: "getitem cafe_table ''text'' = Inr (ObjCol [PStr ''Great'', PNone])"
    by (simp add: getitem_def cafe_table_def)
  from insight_projection [OF wf s t] obtain d where d: "df_ai cafe_table = Inr d"
    and r: "rows d = map (\<lambda>(s, t). [s, t])
                    (filter (\<lambda>(s, t). \<not> isnull t)
                       (zip (cells (NumCol [Num 5, Num 3])) (cells (ObjCol [PStr ''Great'', PNone]))))"
    by blast
  have lit: "df_ai cafe_table = Inr ?d" by code_simp
  with d have "d = ?d" by simp
  with r have "rows ?d = [[PNum 5, PStr ''Great'']]" by simp
  with lit show ?thesis by simp
qed

text \<open>
  Claim C9, as the code has it. The script writes the projection with \<^verbatim>\<open>to_csv\<close>
  and reads the file back in text mode; it has no parser. What a parser can recover from
  \<open>csv_data\<close> is what \<open>csv_data\<close> determines. For projections whose texts are strings
  without carriage return, with ratings that print as non-empty strings free of comma,
  quote and line break, different ratings differently, \<open>csv_data\<close> determines the
  (rating, text) pairs and their order: two such projections with the same \<open>csv_data\<close>
  have the same ratings, the same texts and the same rows. This holds for the line
  terminator of either platform.
\<close>

theorem transfer_text_determines_pairs:
  assumes lt: "lt = [LF] \<or> lt = [CR, LF]"
    and str: "\<forall>s. str (PStr s) = s"
    and num: "\<forall>r. Num r \<in> set xs \<union> set xs' \<longrightarrow> plain (str (PNum r)) \<and> str (PNum r) \<noteq> []"
    and inj: "\<forall>r r'. Num r \<in> set xs \<longrightarrow> Num r' \<in> set xs' \<longrightarrow> str (PNum r) = str (PNum r') \<longrightarrow> r = r'"
    and cr: "\<forall>s\<in>set ss \<union> set ss'. CR \<notin> set s"
    and len: "length xs = length ss" and len': "length xs' = length ss'"
    and eq: "csv_data str lt (two_columns xs ss) = csv_data str lt (two_columns xs' ss')"
  shows "xs = xs' \<and> ss = ss' \<and> rows (two_columns xs ss) = rows (two_columns xs' ss')"
proof -
  from num have n1: "\<forall>r. Num r \<in> set xs \<longrightarrow> plain (str (PNum r)) \<and> str (PNum r) \<noteq> []"
    and n2: "\<forall>r. Num r \<in> set xs' \<longrightarrow> plain (str (PNum r)) \<and> str (PNum r) \<noteq> []" by auto
  have p1: "\<forall>x\<in>set xs. plain (rating_text str x)" using plain_rating_text n1 by blast
  have p2: "\<forall>x\<in>set xs'. plain (rating_text str x)" using plain_rating_text n2 by blast
  from cr have c1: "\<forall>s\<in>set ss. CR \<notin> set s" and c2: "\<forall>s\<in>set ss'. CR \<notin> set s" by auto
  from eq csv_data_two_columns [OF lt str p1 c1 len] csv_data_two_columns [OF lt str p2 c2 len']
  have lines: "concat (map (transfer_line str) (zip xs ss))
               = concat (map (transfer_line str) (zip xs' ss'))" by simp
  have a: "\<forall>p\<in>set (zip xs ss) \<union> set (zip xs' ss'). plain (rating_text str (fst p))"
  proof
    fix p assume "p \<in> set (zip xs ss) \<union> set (zip xs' ss')"
    then have "fst p \<in> set xs \<or> fst p \<in> set xs'" by (metis Un_iff in_set_zipE prod.collapse)
    with p1 p2 show "plain (rating_text str (fst p))" by blast
  qed
  have b: "\<forall>p\<in>set (zip xs ss). \<forall>p'\<in>set (zip xs' ss').
           rating_text str (fst p) = rating_text str (fst p') \<longrightarrow> fst p = fst p'"
  proof (intro ballI impI)
    fix p p' assume "p \<in> set (zip xs ss)" and "p' \<in> set (zip xs' ss')"
      and e: "rating_text str (fst p) = rating_text str (fst p')"
    then have "fst p \<in> set xs" and "fst p' \<in> set xs'" by (metis in_set_zipE prod.collapse)+
    then show "fst p = fst p'" using num inj e by (rule rating_text_inj)
  qed
  from lines_cut [OF a b lines] have "zip xs ss = zip xs' ss'" .
  from zip_eq_same_length [OF len len' this] show ?thesis by simp
qed

text \<open>
  The theorem at the projection of the two cafe reviews: its text is the same under
  both line terminators, and differs from the text of the projection with rating 3.
\<close>

theorem transfer_text_determines_pairs_witness:
  "fetched_projection plain_parser 1700000000000000 sample_rng cafe_reviews
     = Inr (two_columns [Num 5] [''Great''])
   \<and> csv_data plain_str [LF] (two_columns [Num 5] [''Great''])
     = csv_data plain_str [CR, LF] (two_columns [Num 5] [''Great''])
   \<and> rows (two_columns [Num 5] [''Great'']) = [[PNum 5, PStr ''Great'']]
   \<and> csv_data plain_str [LF] (two_columns [Num 5] [''Great''])
     \<noteq> csv_data plain_str [LF] (two_columns [Num 3] [''Great''])"
proof -
  have lt: "[LF] = [LF] \<or> [LF] = [CR, LF]" by simp
  have str: "\<forall>s. plain_str (PStr s) = s" by simp
  have pl: "\<forall>r. plain (plain_str (PNum r)) \<and> plain_str (PNum r) \<noteq> []"
    by (simp add: plain_def)
  have cr: "\<forall>s\<in>set [''Great''] \<union> set [''Great'']. CR \<notin> set s" by simp
  have len: "length [Num 5] = length [''Great'']" by simp
  have len3: "length [Num 3] = length [''Great'']" by simp
  have num5: "\<forall>r. Num r \<in> set [Num 5] \<union> set [Num 5] \<longrightarrow>
                plain (plain_str (PNum r)) \<and> plain_str (PNum r) \<noteq> []"
    using pl by blast
  have inj5: "\<forall>r r'. Num r \<in> set [Num 5] \<longrightarrow> Num r' \<in> set [Num 5] \<longrightarrow>
                plain_str (PNum r) = plain_str (PNum r') \<longrightarrow> r = r'" by simp
  have num3: "\<forall>r. Num r \<in> set [Num 5] \<union> set [Num 3] \<longrightarrow>
                plain (plain_str (PNum r)) \<and> plain_str (PNum r) \<noteq> []"
    using pl by blast
  have inj3: "\<forall>r r'. Num r \<in> set [Num 5] \<longrightarrow> Num r' \<in> set [Num 3] \<longrightarrow>
                plain_str (PNum r) = plain_str (PNum r') \<longrightarrow> r = r'" by simp
  have refl: "csv_data plain_str [LF] (two_columns [Num 5] [''Great''])
              = csv_data plain_str [LF] (two_columns [Num 5] [''Great''])" ..
  from transfer_text_determines_pairs [OF lt str num5 inj5 cr len len refl]
  have same: "rows (two_columns [Num 5] [''Great'']) = rows (two_columns [Num 5] [''Great''])"
    by blast
  have diff: "csv_data plain_str [LF] (two_columns [Num 5] [''Great''])
     \<noteq> csv_data plain_str [LF] (two_columns [Num 3] [''Great''])"
  proof
    assume e: "csv_data plain_str [LF] (two_columns [Num 5] [''Great''])
               = csv_data plain_str [LF] (two_columns [Num 3] [''Great''])"
    from transfer_text_determines_pairs [OF lt str num3 inj3 cr len len3 e]
    have "[Num 5] = [Num (3 :: rat)]" by blast
    then show False by simp
  qed
  have run: "fetched_projection plain_parser 1700000000000000 sample_rng cafe_reviews
     = Inr (two_columns [Num 5] [''Great''])" by code_simp
  have both: "csv_data plain_str [LF] (two_columns [Num 5] [''Great''])
     = csv_data plain_str [CR, LF] (two_columns [Num 5] [''Great''])" by code_simp
  have r: "rows (two_columns [Num 5] [''Great'']) = [[PNum 5, PStr ''Great'']]" by code_simp
  from run both r diff same show ?thesis by simp
qed

text \<open>
  The claim as the specification states it covers every table. Two fetched records
  whose review texts differ only in the line break (carriage return and line feed in
  one, line feed in the other) have different projections and the same \<open>csv_data\<close>,
  because the text-mode read turns the carriage return and line feed into a line feed:
  no parser returns the pairs of both.
\<close>

theorem transfer_text_round_trip_counterexample:
  "fetched_projection plain_parser 1700000000000000 sample_rng crlf_reviews = Inr crlf_projection
   \<and> fetched_projection plain_parser 1700000000000000 sample_rng lf_reviews = Inr lf_projection
   \<and> csv_data plain_str [LF] crlf_projection = csv_data plain_str [LF] lf_projection
   \<and> csv_data plain_str [CR, LF] crlf_projection = csv_data plain_str [CR, LF] lf_projection
   \<and> rows crlf_projection \<noteq> rows lf_projection"
proof -
  have "fetched_projection plain_parser 1700000000000000 sample_rng crlf_reviews = Inr crlf_projection"
    by code_simp
  moreover have "fetched_projection plain_parser 1700000000000000 sample_rng lf_reviews = Inr lf_projection"
    by code_simp
  moreover have "csv_data plain_str [LF] crlf_projection = csv_data plain_str [LF] lf_projection"
    by code_simp
  moreover have "csv_data plain_str [CR, LF] crlf_projection = csv_data plain_str [CR, LF] lf_projection"
    by code_simp
  moreover have "rows crlf_projection \<noteq> rows lf_projection" by code_simp
  ultimately show ?thesis by blast
qed

end
